(* ===== verification/Prelude.thy ===== *)
theory Prelude
  imports Main "HOL-Library.Word"
begin

text \<open>
  The vocabulary shared by every theory of the development.

  A Rust function that takes \<open>&mut self\<close> (or otherwise reaches mutable state) and returns
  \<open>Result<T, E>\<close> is a function from the state to a result and the new state, the type
  \<open>('w, 'e, 'a) io\<close> below; \<open>Inl\<close> is \<open>Err\<close> and \<open>Inr\<close> is \<open>Ok\<close>. The \<open>?\<close> operator is
  \<open>bind_io\<close>: the first error ends the function, and the state it left behind is kept, because
  effects that have already happened are not undone. An \<open>async fn\<close> is read as the sequential
  function that runs between its awaits; the only places where the program lets another future
  win are its \<open>select!\<close> blocks, and those are modelled where they occur.

  Rust \<open>String\<close>/\<open>&str\<close> and \<open>Vec<u8>\<close>/\<open>&[u8]\<close> are both \<open>string\<close>: an Isabelle \<open>char\<close> is
  an 8-bit value, and a Rust string is its UTF-8 bytes.
\<close>

section \<open>Collections of rules\<close>

named_theorems io_simps \<open>rewrite rules for state-and-result computations\<close>
named_theorems frame_simps \<open>what an operation leaves unchanged\<close>

section \<open>Machine integers\<close>

type_synonym u16 = "16 word"
type_synonym u32 = "32 word"
type_synonym u64 = "64 word"
type_synonym bytes = string

text \<open>\<open>u32::saturating_sub\<close>, \<open>u32::saturating_add\<close>, \<open>Ord::max\<close> on unsigned words.\<close>

definition saturating_sub :: "'a::len word \<Rightarrow> 'a word \<Rightarrow> 'a word" where
  "saturating_sub a b = (if a < b then 0 else a - b)"

definition saturating_add :: "'a::len word \<Rightarrow> 'a word \<Rightarrow> 'a word" where
  "saturating_add a b = (if unat a + unat b < 2 ^ LENGTH('a) then a + b else - 1)"

lemma unat_saturating_sub: "unat (saturating_sub a b) = unat a - unat b"
  by (simp add: saturating_sub_def word_less_nat_alt unat_sub word_le_nat_alt)

lemma unat_saturating_add:
  "unat (saturating_add a (b :: 'a::len word)) = min (unat a + unat b) (2 ^ LENGTH('a) - 1)"
proof (cases "unat a + unat b < 2 ^ LENGTH('a)")
  case True
  then show ?thesis
    by (simp add: saturating_add_def unat_word_ariths)
next
  case False
  have "unat (- 1 :: 'a word) = 2 ^ LENGTH('a) - 1"
    by (simp add: unsigned_minus_1_eq_mask mask_eq_exp_minus_1)
  moreover have "2 ^ LENGTH('a) - 1 \<le> unat a + unat b"
    using False by linarith
  ultimately show ?thesis
    using False by (simp add: saturating_add_def min_absorb2)
qed

lemma saturating_sub_0 [simp]: "saturating_sub 0 b = 0"
  by (simp add: saturating_sub_def word_greater_zero_iff)

lemma succ_le_word:
  fixes a b :: "'a::len word"
  assumes "a \<noteq> - 1"
  shows "a + 1 \<le> b \<longleftrightarrow> a < b"
proof -
  have "1 + a \<noteq> 0"
    using assms by (metis add_eq_0_iff)
  then have "unat (a + 1) = Suc (unat a)"
    by (simp add: unatSuc add.commute)
  then show ?thesis
    by (simp add: word_le_nat_alt word_less_nat_alt Suc_le_eq)
qed

section \<open>State, errors and early return\<close>

type_synonym ('w, 'e, 'a) io = "'w \<Rightarrow> ('e + 'a) \<times> 'w"

definition ret_io :: "'a \<Rightarrow> ('w, 'e, 'a) io" where
  "ret_io a w = (Inr a, w)"

definition throw_io :: "'e \<Rightarrow> ('w, 'e, 'a) io" where
  "throw_io e w = (Inl e, w)"

definition bind_io :: "('w, 'e, 'a) io \<Rightarrow> ('a \<Rightarrow> ('w, 'e, 'b) io) \<Rightarrow> ('w, 'e, 'b) io" where
  "bind_io m f w = (case m w of (Inl e, w') \<Rightarrow> (Inl e, w') | (Inr a, w') \<Rightarrow> f a w')"

text \<open>\<open>let _ = m;\<close> in Rust: the result, error or not, is dropped and the effects are kept.\<close>

definition ignore_io :: "('w, 'e, 'a) io \<Rightarrow> ('w, 'e, unit) io" where
  "ignore_io m w = (Inr (), snd (m w))"

definition ok_or :: "'e \<Rightarrow> 'a option \<Rightarrow> ('w, 'e, 'a) io" where
  "ok_or e x w = (case x of None \<Rightarrow> (Inl e, w) | Some a \<Rightarrow> (Inr a, w))"

definition map_err :: "('e \<Rightarrow> 'f) \<Rightarrow> 'e + 'a \<Rightarrow> 'f + 'a" where
  "map_err f r = (case r of Inl e \<Rightarrow> Inl (f e) | Inr a \<Rightarrow> Inr a)"

lemma ret_io_apply [simp, io_simps]: "ret_io a w = (Inr a, w)"
  by (simp add: ret_io_def)

lemma throw_io_apply [simp, io_simps]: "throw_io e w = (Inl e, w)"
  by (simp add: throw_io_def)

lemma ignore_io_apply [simp, io_simps]: "ignore_io m w = (Inr (), snd (m w))"
  by (simp add: ignore_io_def)

lemma ok_or_apply [simp, io_simps]:
  "ok_or e None w = (Inl e, w)" "ok_or e (Some a) w = (Inr a, w)"
  by (simp_all add: ok_or_def)

lemma map_err_simps [simp]: "map_err f (Inl e) = Inl (f e)" "map_err f (Inr a) = Inr a"
  by (simp_all add: map_err_def)

definition map_ok :: "('a \<Rightarrow> 'b) \<Rightarrow> 'e + 'a \<Rightarrow> 'e + 'b" where
  "map_ok f r = (case r of Inl e \<Rightarrow> Inl e | Inr a \<Rightarrow> Inr (f a))"

lemma map_ok_simps [simp]: "map_ok f (Inl e) = Inl e" "map_ok f (Inr a) = Inr (f a)"
  by (simp_all add: map_ok_def)

lemma map_ok_eq:
  "map_ok f r = Inr b \<longleftrightarrow> (\<exists>a. r = Inr a \<and> b = f a)" "map_ok f r = Inl e \<longleftrightarrow> r = Inl e"
  "Inr b = map_ok f r \<longleftrightarrow> (\<exists>a. r = Inr a \<and> b = f a)"
  by (cases r; auto)+

lemma map_err_eq_Inr [simp]: "map_err f r = Inr a \<longleftrightarrow> r = Inr a"
  by (cases r) simp_all

lemma map_err_eq_Inl:
  "map_err f r = Inl e \<longleftrightarrow> (\<exists>x. r = Inl x \<and> e = f x)"
  "Inl e = map_err f r \<longleftrightarrow> (\<exists>x. r = Inl x \<and> e = f x)"
  by (cases r; auto)+

lemma bind_io_Ok: "m w = (Inr a, w') \<Longrightarrow> bind_io m f w = f a w'"
  by (simp add: bind_io_def)

lemma bind_io_Err: "m w = (Inl e, w') \<Longrightarrow> bind_io m f w = (Inl e, w')"
  by (simp add: bind_io_def)

lemmas bind_io_simps [simp] = bind_io_Ok bind_io_Err

lemma bind_io_ret [simp, io_simps]: "bind_io (ret_io a) f = f a"
  by (simp add: bind_io_def fun_eq_iff)

lemma bind_io_throw [simp, io_simps]: "bind_io (throw_io e) f = throw_io e"
  by (simp add: bind_io_def fun_eq_iff)

lemma bind_io_ret_right [simp]: "bind_io m ret_io = m"
  by (auto simp: bind_io_def fun_eq_iff split: prod.split sum.split)

lemma bind_io_unit [simp]:
  fixes m :: "('w, 'e, unit) io"
  shows "bind_io m (\<lambda>_. ret_io ()) = m" and "bind_io m (\<lambda>_. Pair (Inr ())) = m"
  by (auto simp: bind_io_def fun_eq_iff split: prod.split sum.split)

lemma bind_io_assoc: "bind_io (bind_io m f) g = bind_io m (\<lambda>a. bind_io (f a) g)"
  by (auto simp: bind_io_def fun_eq_iff split: prod.split sum.split)

text \<open>Inversion of a sequential composition: how it can succeed and how it can fail.\<close>

lemma bind_io_eq_Ok:
  "bind_io m f w = (Inr b, w'') \<longleftrightarrow> (\<exists>a w'. m w = (Inr a, w') \<and> f a w' = (Inr b, w''))"
  by (auto simp: bind_io_def split: prod.splits sum.splits)

lemma bind_io_eq_Err:
  "bind_io m f w = (Inl e, w'') \<longleftrightarrow>
     m w = (Inl e, w'') \<or> (\<exists>a w'. m w = (Inr a, w') \<and> f a w' = (Inl e, w''))"
  by (auto simp: bind_io_def split: prod.splits sum.splits)

text \<open>
  An invariant of the state that every step keeps. \<open>keeps I m\<close> says that \<open>m\<close> keeps \<open>I\<close>
  whether it succeeds or fails; it composes along \<open>bind_io\<close>.
\<close>

definition keeps :: "('w \<Rightarrow> bool) \<Rightarrow> ('w, 'e, 'a) io \<Rightarrow> bool" where
  "keeps I m \<longleftrightarrow> (\<forall>w. I w \<longrightarrow> I (snd (m w)))"

lemma keepsI: "(\<And>w. I w \<Longrightarrow> I (snd (m w))) \<Longrightarrow> keeps I m"
  by (simp add: keeps_def)

lemma keepsD: "keeps I m \<Longrightarrow> I w \<Longrightarrow> I (snd (m w))"
  by (simp add: keeps_def)

lemma keeps_ret [intro]: "keeps I (ret_io a)" and keeps_throw [intro]: "keeps I (throw_io e)"
  by (simp_all add: keeps_def)

lemma keeps_ok_or [intro]: "keeps I (ok_or e x)"
  by (cases x) (simp_all add: keeps_def)

lemma keeps_ignore [intro]: "keeps I m \<Longrightarrow> keeps I (ignore_io m)"
  by (simp add: keeps_def)

lemma keeps_bind [intro]:
  assumes "keeps I m" and "\<And>a. keeps I (f a)"
  shows "keeps I (bind_io m f)"
proof (rule keepsI)
  fix w
  assume "I w"
  with assms(1) have "I (snd (m w))" by (rule keepsD)
  then show "I (snd (bind_io m f w))"
    using assms(2) by (cases "m w") (auto simp: bind_io_def keeps_def split: sum.split)
qed

end
