(* ===== verification/Rust_Str.thy ===== *)
theory Rust_Str
  imports Prelude
begin

text \<open>
  The operations of Rust's \<open>str\<close> and \<open>String\<close> that the program calls, on UTF-8 bytes:
  \<open>lines\<close>, \<open>trim\<close>, \<open>trim_start\<close>, \<open>split_once\<close>, \<open>strip_prefix\<close>/\<open>strip_suffix\<close>,
  \<open>to_ascii_lowercase\<close>, \<open>replace\<close>, \<open>join\<close>, \<open>trim_end_matches\<close>, decimal \<open>to_string\<close> and
  \<open>String::from_utf8_lossy\<close>. White space is Unicode's \<open>White_Space\<close>, so the multi-byte
  encodings of U+0085, U+00A0, U+1680, U+2000-200A, U+2028, U+2029, U+202F, U+205F and U+3000
  count, as they do in \<open>char::is_whitespace\<close>.
\<close>

abbreviation LF :: char where "LF \<equiv> CHR 0x0A"
abbreviation CR :: char where "CR \<equiv> CHR 0x0D"
abbreviation SP :: char where "SP \<equiv> CHR 0x20"
abbreviation TAB :: char where "TAB \<equiv> CHR 0x09"
abbreviation CRLF :: string where "CRLF \<equiv> [CR, LF]"

section \<open>ASCII case\<close>

definition byte :: "char \<Rightarrow> nat" where
  "byte c = of_char c"

definition ascii_lower :: "char \<Rightarrow> char" where
  "ascii_lower c = (if 65 \<le> byte c \<and> byte c \<le> 90 then char_of (byte c + 32) else c)"

definition to_ascii_lowercase :: "string \<Rightarrow> string" where
  "to_ascii_lowercase s = map ascii_lower s"

lemma byte_less: "byte c < 256"
  by (simp add: byte_def)

lemma byte_char_of: "n < 256 \<Longrightarrow> byte (char_of n) = n"
  by (simp add: byte_def)

lemma ascii_lower_idem [simp]: "ascii_lower (ascii_lower c) = ascii_lower c"
  by (simp add: ascii_lower_def byte_char_of)

lemma ascii_lower_other: "ascii_lower c = d \<Longrightarrow> byte d < 97 \<Longrightarrow> c = d"
  by (auto simp: ascii_lower_def byte_char_of split: if_splits)

lemma to_ascii_lowercase_idem [simp]:
  "to_ascii_lowercase (to_ascii_lowercase s) = to_ascii_lowercase s"
  by (simp add: to_ascii_lowercase_def)

lemma set_to_ascii_lowercase: "d \<in> set (to_ascii_lowercase s) \<Longrightarrow> byte d < 97 \<Longrightarrow> d \<in> set s"
  by (auto simp: to_ascii_lowercase_def) (metis ascii_lower_other)

lemma to_ascii_lowercase_append [simp]:
  "to_ascii_lowercase (s @ t) = to_ascii_lowercase s @ to_ascii_lowercase t"
  by (simp add: to_ascii_lowercase_def)

section \<open>Lines\<close>

lemma until_append [simp]:
  "c \<notin> set n \<Longrightarrow> takeWhile (\<lambda>d. d \<noteq> c) (n @ c # v) = n"
  "c \<notin> set n \<Longrightarrow> dropWhile (\<lambda>d. d \<noteq> c) (n @ c # v) = c # v"
  by (induction n) auto

lemma until_absent [simp]:
  "c \<notin> set n \<Longrightarrow> takeWhile (\<lambda>d. d \<noteq> c) n = n"
  "c \<notin> set n \<Longrightarrow> dropWhile (\<lambda>d. d \<noteq> c) n = []"
  by (induction n) auto

definition strip_cr :: "string \<Rightarrow> string" where
  "strip_cr l = (if l \<noteq> [] \<and> last l = CR then butlast l else l)"

text \<open>
  \<open>str::lines\<close>: split after each line feed, drop it, and drop one carriage return before it.
  A final piece without a line feed keeps its carriage return; an empty final piece is no line.
\<close>

function lines :: "string \<Rightarrow> string list" where
  "lines s =
     (if s = [] then []
      else case dropWhile (\<lambda>c. c \<noteq> LF) s of
             [] \<Rightarrow> [s]
           | _ # rest \<Rightarrow> strip_cr (takeWhile (\<lambda>c. c \<noteq> LF) s) # lines rest)"
  by pat_completeness auto
termination
proof (relation "measure length", goal_cases)
  case (2 s c rest)
  then have "length (c # rest) \<le> length s"
    by (metis length_dropWhile_le)
  then show ?case by simp
qed simp

declare lines.simps [simp del]

lemma lines_Nil [simp]: "lines [] = []"
  by (simp add: lines.simps)

lemma lines_last: "LF \<notin> set l \<Longrightarrow> l \<noteq> [] \<Longrightarrow> lines l = [l]"
  by (subst lines.simps) simp

lemma lines_LF: "LF \<notin> set l \<Longrightarrow> lines (l @ LF # s) = strip_cr l # lines s"
  by (subst lines.simps) simp

lemma strip_cr_CR [simp]: "strip_cr (l @ [CR]) = l"
  by (simp add: strip_cr_def)

lemma strip_cr_no_CR [simp]: "CR \<notin> set l \<Longrightarrow> strip_cr l = l"
  by (auto simp: strip_cr_def dest: last_in_set)

lemma lines_CRLF:
  assumes "LF \<notin> set l"
  shows "lines (l @ CR # LF # s) = l # lines s"
  using assms lines_LF [of "l @ [CR]" s] by simp

lemma set_strip_cr: "set (strip_cr l) \<subseteq> set l"
  by (auto simp: strip_cr_def dest: in_set_butlastD)

lemma lines_no_LF: "l \<in> set (lines s) \<Longrightarrow> LF \<notin> set l"
proof (induction s rule: lines.induct)
  case (1 s)
  show ?case
  proof (cases "LF \<in> set s")
    case False
    then show ?thesis
      using "1.prems" lines_last [of s] by (cases "s = []") auto
  next
    case True
    then obtain k rest where s: "s = k @ LF # rest" and k: "LF \<notin> set k"
      by (metis split_list_first)
    have "LF \<notin> set l" if "l \<in> set (lines rest)"
      using "1.IH" [of LF rest] that s k by simp
    moreover have "LF \<notin> set (strip_cr k)"
      using set_strip_cr [of k] k by blast
    ultimately show ?thesis
      using "1.prems" k by (auto simp: s lines_LF)
  qed
qed

text \<open>Lines that hold no line feed come back from their concatenation with CRLF terminators.\<close>

lemma lines_concat_CRLF:
  "\<forall>l \<in> set ls. LF \<notin> set l \<Longrightarrow> lines (concat (map (\<lambda>l. l @ CRLF) ls) @ s) = ls @ lines s"
  by (induction ls) (simp_all add: lines_CRLF)

section \<open>Splitting, stripping, joining\<close>

definition split_once :: "char \<Rightarrow> string \<Rightarrow> (string \<times> string) option" where
  "split_once c s =
     (if c \<in> set s then Some (takeWhile (\<lambda>d. d \<noteq> c) s, tl (dropWhile (\<lambda>d. d \<noteq> c) s)) else None)"

lemma split_once_append [simp]: "c \<notin> set n \<Longrightarrow> split_once c (n @ c # v) = Some (n, v)"
  by (simp add: split_once_def)

lemma split_once_None [simp]: "c \<notin> set s \<Longrightarrow> split_once c s = None"
  by (simp add: split_once_def)

lemma split_once_Some: "split_once c s = Some (n, v) \<longleftrightarrow> c \<notin> set n \<and> s = n @ c # v"
proof
  assume "split_once c s = Some (n, v)"
  then have c: "c \<in> set s" and n: "n = takeWhile (\<lambda>d. d \<noteq> c) s"
    and v: "v = tl (dropWhile (\<lambda>d. d \<noteq> c) s)"
    by (auto simp: split_once_def split: if_splits)
  from c have "dropWhile (\<lambda>d. d \<noteq> c) s \<noteq> []" and "hd (dropWhile (\<lambda>d. d \<noteq> c) s) = c"
    by (auto simp: dropWhile_eq_Nil_conv intro: hd_dropWhile [where P = "\<lambda>d. d \<noteq> c", simplified])
  with v have "c # v = dropWhile (\<lambda>d. d \<noteq> c) s" by (metis list.collapse)
  with n have "s = n @ c # v" by simp
  moreover have "c \<notin> set n" using n by (auto dest: set_takeWhileD)
  ultimately show "c \<notin> set n \<and> s = n @ c # v" by blast
qed simp

definition strip_prefix :: "char \<Rightarrow> string \<Rightarrow> string option" where
  "strip_prefix c s = (case s of [] \<Rightarrow> None | d # t \<Rightarrow> if d = c then Some t else None)"

definition strip_suffix :: "char \<Rightarrow> string \<Rightarrow> string option" where
  "strip_suffix c s = map_option rev (strip_prefix c (rev s))"

lemma strip_prefix_Cons [simp]: "strip_prefix c (c # s) = Some s"
  by (simp add: strip_prefix_def)

lemma strip_suffix_snoc [simp]: "strip_suffix c (s @ [c]) = Some s"
  by (simp add: strip_suffix_def)

fun join :: "string \<Rightarrow> string list \<Rightarrow> string" where
  "join sep [] = []"
| "join sep [x] = x"
| "join sep (x # y # xs) = x @ sep @ join sep (y # xs)"

lemma set_join: "set (join sep xs) \<subseteq> set sep \<union> \<Union> (set ` set xs)"
  by (induction sep xs rule: join.induct) auto

lemma join_snoc: "xs \<noteq> [] \<Longrightarrow> join sep (xs @ [y]) = join sep xs @ sep @ y"
  by (induction sep xs rule: join.induct) simp_all

text \<open>\<open>str::trim_end_matches\<close> with a set of characters.\<close>

definition trim_end_matches :: "char set \<Rightarrow> string \<Rightarrow> string" where
  "trim_end_matches cs s = rev (dropWhile (\<lambda>c. c \<in> cs) (rev s))"

lemma trim_end_matches_decomp:
  "\<exists>t. s = trim_end_matches cs s @ t \<and> set t \<subseteq> cs"
proof (intro exI conjI)
  show "s = trim_end_matches cs s @ rev (takeWhile (\<lambda>c. c \<in> cs) (rev s))"
    unfolding trim_end_matches_def by (metis rev_append rev_rev_ident takeWhile_dropWhile_id)
  show "set (rev (takeWhile (\<lambda>c. c \<in> cs) (rev s))) \<subseteq> cs"
    by (auto dest: set_takeWhileD)
qed

lemma trim_end_matches_last:
  "trim_end_matches cs s \<noteq> [] \<Longrightarrow> last (trim_end_matches cs s) \<notin> cs"
  unfolding trim_end_matches_def
  by (metis hd_dropWhile last_rev rev_is_Nil_conv)

text \<open>
  \<open>str::replace\<close> with a non-empty pattern: leftmost matches, not overlapping. (The program
  only calls it with the constants CRLF and LF; an empty pattern is left alone here.)
\<close>

function replace_str :: "string \<Rightarrow> string \<Rightarrow> string \<Rightarrow> string" where
  "replace_str pat to s =
     (if pat = [] \<or> s = [] then s
      else if take (length pat) s = pat then to @ replace_str pat to (drop (length pat) s)
      else hd s # replace_str pat to (tl s))"
  by pat_completeness auto
termination
  by (relation "measure (\<lambda>(pat, to, s). length s)") auto

declare replace_str.simps [simp del]

lemma replace_str_Nil [simp]: "replace_str pat to [] = []"
  by (simp add: replace_str.simps)

lemma replace_char: "replace_str [c] to s = concat (map (\<lambda>d. if d = c then to else [d]) s)"
proof (induction s)
  case Nil
  then show ?case by simp
next
  case (Cons d s)
  then show ?case by (subst replace_str.simps) simp
qed

lemma replace_char_removes: "c \<notin> set to \<Longrightarrow> c \<notin> set (replace_str [c] to s)"
  by (auto simp: replace_char split: if_splits)

lemma replace_str_id: "length pat > 0 \<Longrightarrow> hd pat \<notin> set s \<Longrightarrow> replace_str pat to s = s"
proof (induction s)
  case Nil
  then show ?case by simp
next
  case (Cons d s)
  then have "take (length pat) (d # s) \<noteq> pat"
    by (cases pat) auto
  with Cons show ?case by (subst replace_str.simps) simp
qed

section \<open>White space\<close>

definition ws1 :: "char \<Rightarrow> bool" where
  "ws1 a \<longleftrightarrow> 9 \<le> byte a \<and> byte a \<le> 13 \<or> byte a = 32"

definition ws2 :: "char \<Rightarrow> char \<Rightarrow> bool" where
  "ws2 a b \<longleftrightarrow> byte a = 0xC2 \<and> (byte b = 0x85 \<or> byte b = 0xA0)"

definition ws3 :: "char \<Rightarrow> char \<Rightarrow> char \<Rightarrow> bool" where
  "ws3 a b c \<longleftrightarrow>
     byte a = 0xE1 \<and> byte b = 0x9A \<and> byte c = 0x80 \<or>
     byte a = 0xE2 \<and> byte b = 0x80 \<and>
       (0x80 \<le> byte c \<and> byte c \<le> 0x8A \<or> byte c \<in> {0xA8, 0xA9, 0xAF}) \<or>
     byte a = 0xE2 \<and> byte b = 0x81 \<and> byte c = 0x9F \<or>
     byte a = 0xE3 \<and> byte b = 0x80 \<and> byte c = 0x80"

fun trim_by :: "(char \<Rightarrow> char \<Rightarrow> bool) \<Rightarrow> (char \<Rightarrow> char \<Rightarrow> char \<Rightarrow> bool) \<Rightarrow> string \<Rightarrow> string" where
  "trim_by w2 w3 [] = []"
| "trim_by w2 w3 [a] = (if ws1 a then [] else [a])"
| "trim_by w2 w3 [a, b] =
     (if ws1 a then trim_by w2 w3 [b] else if w2 a b then [] else [a, b])"
| "trim_by w2 w3 (a # b # c # s) =
     (if ws1 a then trim_by w2 w3 (b # c # s)
      else if w2 a b then trim_by w2 w3 (c # s)
      else if w3 a b c then trim_by w2 w3 s
      else a # b # c # s)"

definition trim_start :: "string \<Rightarrow> string" where
  "trim_start s = trim_by ws2 ws3 s"

definition trim_end :: "string \<Rightarrow> string" where
  "trim_end s = rev (trim_by (\<lambda>b a. ws2 a b) (\<lambda>c b a. ws3 a b c) (rev s))"

definition trim :: "string \<Rightarrow> string" where
  "trim s = trim_end (trim_start s)"

lemma trim_by_suffix: "\<exists>p. s = p @ trim_by w2 w3 s"
proof (induction w2 w3 s rule: trim_by.induct)
  case (4 w2 w3 a b c s)
  then show ?case
    by (auto split: if_splits) (metis append_Cons append_Nil)+
qed (auto intro: exI [of _ "[_]"])

lemma set_trim: "set (trim s) \<subseteq> set s"
proof -
  have *: "set (trim_by w2 w3 t) \<subseteq> set t" for w2 w3 t
    using trim_by_suffix [of t w2 w3] by (metis Un_upper2 set_append)
  show ?thesis
    unfolding trim_def trim_end_def trim_start_def using * by (metis order_trans set_rev)
qed

lemma trim_by_id:
  "s = [] \<or> (\<not> ws1 (hd s) \<and> (\<forall>b. \<not> w2 (hd s) b) \<and> (\<forall>b c. \<not> w3 (hd s) b c)) \<Longrightarrow> trim_by w2 w3 s = s"
  by (cases "(w2, w3, s)" rule: trim_by.cases) auto

text \<open>A string whose first and last bytes are printable ASCII is already trimmed.\<close>

definition visible :: "char \<Rightarrow> bool" where
  "visible c \<longleftrightarrow> 32 < byte c \<and> byte c < 127"

lemma trim_visible:
  assumes "s = [] \<or> visible (hd s) \<and> visible (last s)"
  shows "trim s = s" and "trim (SP # s) = s"
proof -
  have st: "trim_start s = s"
    unfolding trim_start_def using assms
    by (intro trim_by_id) (auto simp: visible_def ws1_def ws2_def ws3_def)
  have en: "trim_end s = s"
    unfolding trim_end_def using assms
    by (subst trim_by_id) (auto simp: visible_def ws1_def ws2_def ws3_def hd_rev)
  show "trim s = s" by (simp add: trim_def st en)
  have "trim_start (SP # s) = trim_start s"
    unfolding trim_start_def
    by (cases "(ws2, ws3, s)" rule: trim_by.cases) (auto simp: ws1_def byte_def)
  then show "trim (SP # s) = s" by (simp add: trim_def st en)
qed

section \<open>Decimal numbers\<close>

fun show_nat :: "nat \<Rightarrow> string" where
  "show_nat n = (if n < 10 then [char_of (48 + n)]
                 else show_nat (n div 10) @ [char_of (48 + n mod 10)])"

declare show_nat.simps [simp del]

definition show_word :: "'a::len word \<Rightarrow> string" where
  "show_word w = show_nat (unat w)"

definition is_digit :: "char \<Rightarrow> bool" where
  "is_digit c \<longleftrightarrow> 48 \<le> byte c \<and> byte c \<le> 57"

lemma show_nat_digits: "c \<in> set (show_nat n) \<Longrightarrow> is_digit c"
proof (induction n rule: show_nat.induct)
  case (1 n)
  then show ?case
    by (subst (asm) (2) show_nat.simps)
       (auto simp: is_digit_def byte_char_of split: if_splits)
qed

lemma show_nat_nonempty [simp]: "show_nat n \<noteq> []"
  by (subst show_nat.simps) simp

text \<open>The value of a digit string; printing and reading a number is the identity.\<close>

definition read_nat :: "string \<Rightarrow> nat" where
  "read_nat s = foldl (\<lambda>n c. 10 * n + (byte c - 48)) 0 s"

lemma read_show_nat [simp]: "read_nat (show_nat n) = n"
proof (induction n rule: show_nat.induct)
  case (1 n)
  show ?case
  proof (cases "n < 10")
    case True
    then show ?thesis by (subst show_nat.simps) (simp add: read_nat_def byte_char_of)
  next
    case False
    then have "read_nat (show_nat n) = 10 * read_nat (show_nat (n div 10)) + n mod 10"
      by (subst show_nat.simps) (simp add: read_nat_def byte_char_of)
    with 1 False show ?thesis by simp
  qed
qed

lemma inj_show_nat: "show_nat m = show_nat n \<Longrightarrow> m = n"
  by (metis read_show_nat)

end
