(* ===== verification/Utf8.thy ===== *)
theory Utf8
  imports Rust_Str
begin

text \<open>
  \<open>String::from_utf8_lossy\<close>: the bytes are read one code point at a time, and each maximal
  ill-formed piece is replaced by U+FFFD (bytes EF BF BD). The table is that of Rust's
  \<open>Utf8Chunks\<close>: the width of a sequence from its first byte, the narrower ranges of the second
  byte (no overlong forms, no surrogates, nothing above U+10FFFF), continuation bytes 80-BF.
  Reading beyond the end gives 0, which is no continuation byte.
\<close>

definition get_byte :: "string \<Rightarrow> nat \<Rightarrow> nat" where
  "get_byte s i = (if i < length s then byte (s ! i) else 0)"

definition cont_byte :: "nat \<Rightarrow> bool" where
  "cont_byte n \<longleftrightarrow> 128 \<le> n \<and> n \<le> 191"

definition utf8_width :: "nat \<Rightarrow> nat" where
  "utf8_width b =
     (if b < 128 then 1 else if 0xC2 \<le> b \<and> b \<le> 0xDF then 2
      else if 0xE0 \<le> b \<and> b \<le> 0xEF then 3 else if 0xF0 \<le> b \<and> b \<le> 0xF4 then 4 else 0)"

definition second_byte :: "nat \<Rightarrow> nat \<Rightarrow> bool" where
  "second_byte b n \<longleftrightarrow> cont_byte n \<and>
     (b = 0xE0 \<longrightarrow> 0xA0 \<le> n) \<and> (b = 0xED \<longrightarrow> n \<le> 0x9F) \<and>
     (b = 0xF0 \<longrightarrow> 0x90 \<le> n) \<and> (b = 0xF4 \<longrightarrow> n \<le> 0x8F)"

text \<open>Whether the string starts with a well-formed sequence, and how many bytes to consume.\<close>

definition utf8_chunk :: "string \<Rightarrow> bool \<times> nat" where
  "utf8_chunk s =
     (let b = get_byte s 0; w = utf8_width b in
      if w = 1 then (True, 1)
      else if w = 0 \<or> \<not> second_byte b (get_byte s 1) then (False, 1)
      else if w = 2 then (True, 2)
      else if \<not> cont_byte (get_byte s 2) then (False, 2)
      else if w = 3 then (True, 3)
      else if \<not> cont_byte (get_byte s 3) then (False, 3)
      else (True, 4))"

definition replacement :: string where
  "replacement = [CHR 0xEF, CHR 0xBF, CHR 0xBD]"

lemma utf8_chunk_pos: "0 < snd (utf8_chunk s)"
  by (simp add: utf8_chunk_def Let_def)

function from_utf8_lossy :: "string \<Rightarrow> string" where
  "from_utf8_lossy s =
     (if s = [] then []
      else (let (ok, n) = utf8_chunk s in
            (if ok then take n s else replacement) @ from_utf8_lossy (drop n s)))"
  by pat_completeness auto
termination
proof (relation "measure length", goal_cases)
  case (2 s p ok n)
  then have "0 < n" using utf8_chunk_pos [of s] by (metis snd_conv)
  with 2 show ?case by simp
qed simp

declare from_utf8_lossy.simps [simp del]

lemma from_utf8_lossy_Nil [simp]: "from_utf8_lossy [] = []"
  by (simp add: from_utf8_lossy.simps)

lemma get_byte_simps [simp]:
  "get_byte [] i = 0" "get_byte (c # s) 0 = byte c" "get_byte (c # s) (Suc i) = get_byte s i"
  by (simp_all add: get_byte_def)

lemma get_byte_numerals [simp]:
  "get_byte (c # s) 1 = get_byte s 0" "get_byte (c # s) 2 = get_byte s 1"
  "get_byte (c # s) 3 = get_byte s 2"
  by (simp_all add: numeral_2_eq_2 numeral_3_eq_3)

lemma low_not_cont: "n < 128 \<Longrightarrow> \<not> cont_byte n \<and> \<not> second_byte b n"
  by (simp add: cont_byte_def second_byte_def)

lemma utf8_chunk_ascii [simp]: "byte c < 128 \<Longrightarrow> utf8_chunk (c # s) = (True, 1)"
  by (simp add: utf8_chunk_def utf8_width_def)

lemma from_utf8_lossy_ascii_Cons [simp]:
  "byte c < 128 \<Longrightarrow> from_utf8_lossy (c # s) = c # from_utf8_lossy s"
  by (subst from_utf8_lossy.simps) simp

lemma from_utf8_lossy_ascii: "\<forall>c \<in> set s. byte c < 128 \<Longrightarrow> from_utf8_lossy s = s"
  by (induction s) simp_all

text \<open>An ASCII byte never belongs to a longer sequence, so decoding can be cut before one.\<close>

lemma utf8_chunk_cut:
  assumes "byte c < 128" and "a \<noteq> []"
  shows "utf8_chunk (a @ c # s) = utf8_chunk a" and "snd (utf8_chunk a) \<le> length a"
proof -
  have low: "\<not> cont_byte (byte c)" "\<not> second_byte b (byte c)" "\<not> cont_byte 0" "\<not> second_byte b 0" for b
    using low_not_cont [of "byte c"] low_not_cont [of 0] assms(1) by auto
  show "utf8_chunk (a @ c # s) = utf8_chunk a"
  proof -
    obtain x t where a: "a = x # t" using assms(2) by (cases a) auto
    show ?thesis
    proof (cases t)
      case Nil
      then show ?thesis using low by (simp add: a utf8_chunk_def Let_def)
    next
      case t: (Cons y u)
      show ?thesis
      proof (cases u)
        case Nil
        then show ?thesis using low by (simp add: a t utf8_chunk_def Let_def)
      next
        case u: (Cons z v)
        then show ?thesis using low by (cases v) (simp_all add: a t utf8_chunk_def Let_def)
      qed
    qed
  qed
  have "cont_byte (get_byte a i) \<Longrightarrow> i < length a" "second_byte b (get_byte a i) \<Longrightarrow> i < length a"
    for b i using low by (auto simp: get_byte_def split: if_splits)
  from this(1) [of 2] this(1) [of 3] this(2) [of "get_byte a 0" 1] assms(2)
  show "snd (utf8_chunk a) \<le> length a"
    by (cases a) (auto simp: utf8_chunk_def Let_def Suc_le_eq)
qed

lemma from_utf8_lossy_cut:
  assumes "byte c < 128"
  shows "from_utf8_lossy (a @ c # s) = from_utf8_lossy a @ c # from_utf8_lossy s"
proof (induction a rule: length_induct)
  case (1 a)
  show ?case
  proof (cases "a = []")
    case True
    with assms show ?thesis by simp
  next
    case False
    obtain ok n where ch: "utf8_chunk a = (ok, n)" by fastforce
    note cut = utf8_chunk_cut [OF assms False]
    have n: "0 < n" "n \<le> length a"
      using ch cut(2) utf8_chunk_pos [of a] by simp_all
    have "from_utf8_lossy (drop n a @ c # s) = from_utf8_lossy (drop n a) @ c # from_utf8_lossy s"
      using 1 n False by simp
    then show ?thesis
      using n False ch cut(1) [of s] from_utf8_lossy.simps [of a] from_utf8_lossy.simps [of "a @ c # s"]
      by simp
  qed
qed

text \<open>Decoding produces well-formed UTF-8: decoding again changes nothing.\<close>

lemma utf8_chunk_take:
  assumes "utf8_chunk s = (True, n)" and "s \<noteq> []"
  shows "utf8_chunk (take n s @ t) = (True, n)" and "n \<le> length s" and "take n s \<noteq> []"
proof -
  have shape: "(n = 1 \<and> utf8_width (get_byte s 0) = 1) \<or>
      (n = 2 \<and> utf8_width (get_byte s 0) = 2 \<and> second_byte (get_byte s 0) (get_byte s 1)) \<or>
      (n = 3 \<and> utf8_width (get_byte s 0) = 3 \<and> second_byte (get_byte s 0) (get_byte s 1) \<and>
        cont_byte (get_byte s 2)) \<or>
      (n = 4 \<and> utf8_width (get_byte s 0) \<notin> {0, 1, 2, 3} \<and>
        second_byte (get_byte s 0) (get_byte s 1) \<and>
        cont_byte (get_byte s 2) \<and> cont_byte (get_byte s 3))"
    using assms(1) by (auto simp: utf8_chunk_def Let_def split: if_splits)
  have inside: "cont_byte (get_byte s i) \<Longrightarrow> i < length s"
    "second_byte b (get_byte s i) \<Longrightarrow> i < length s" for i b
    using low_not_cont [of 0] by (auto simp: get_byte_def split: if_splits)
  show n: "n \<le> length s"
    using shape inside(1) [of 2] inside(1) [of 3] inside(2) [of "get_byte s 0" 1] assms(2)
    by (cases s) (auto simp: Suc_le_eq)
  define u where "u = take n s @ t"
  have g: "i < n \<Longrightarrow> get_byte u i = get_byte s i" for i
    using n by (simp add: u_def get_byte_def nth_append)
  have "utf8_chunk u = (True, n)"
    using shape g [of 0] g [of 1] g [of 2] g [of 3]
    by (elim disjE conjE) (simp_all add: utf8_chunk_def Let_def)
  then show "utf8_chunk (take n s @ t) = (True, n)" by (simp only: u_def)
  have "0 < n" using utf8_chunk_pos [of s] assms(1) by simp
  then show "take n s \<noteq> []" using assms(2) by simp
qed

lemma from_utf8_lossy_idem [simp]: "from_utf8_lossy (from_utf8_lossy s) = from_utf8_lossy s"
proof (induction s rule: from_utf8_lossy.induct)
  case (1 s)
  show ?case
  proof (cases "s = []")
    case False
    obtain ok n where ch: "utf8_chunk s = (ok, n)" by fastforce
    let ?p = "if ok then take n s else replacement"
    have s: "from_utf8_lossy s = ?p @ from_utf8_lossy (drop n s)"
      using from_utf8_lossy.simps [of s] False ch by simp
    have p: "utf8_chunk (?p @ t) = (True, length ?p)" "?p \<noteq> []" for t
    proof -
      have "utf8_chunk (replacement @ t) = (True, length replacement)"
        by (simp add: replacement_def utf8_chunk_def utf8_width_def second_byte_def
            cont_byte_def byte_def)
      then show "utf8_chunk (?p @ t) = (True, length ?p)"
        using utf8_chunk_take(1,2) [of s n] ch False by simp
      show "?p \<noteq> []"
        using utf8_chunk_take(3) [of s n] ch False by (simp add: replacement_def)
    qed
    have "from_utf8_lossy (?p @ from_utf8_lossy (drop n s))
        = ?p @ from_utf8_lossy (from_utf8_lossy (drop n s))"
      using p from_utf8_lossy.simps [of "?p @ from_utf8_lossy (drop n s)"] by simp
    with s "1" [OF False ch [symmetric] refl] show ?thesis by simp
  qed simp
qed

end
