(* ===== verification/Types.thy ===== *)
theory Types
  imports Utf8
begin

text \<open>
  \<open>types.rs\<close>: the message context, the resolved Sieve actions, processing results, the error
  type of the engine library with its \<open>Display\<close>, and the RFC 5322 header parser.
\<close>

section \<open>Errors (\<open>types.rs\<close>, \<open>state.rs\<close>)\<close>

text \<open>
  The payloads of \<open>std::io::Error\<close> and \<open>serde_json::Error\<close> are their messages; of the kinds
  of an I/O error the program only distinguishes \<open>NotFound\<close>.
\<close>

datatype io_error = NotFound string | OtherIo string

datatype StateError = StateIo io_error | StateJson string

datatype CoreError =
    Imap string
  | Smtp string
  | Sieve string
  | State StateError
  | UidValidityChanged (cached: u32) (server: u32)
  | MissingCapability string
  | Io io_error

fun display_io_error :: "io_error \<Rightarrow> string" where
  "display_io_error (NotFound m) = m"
| "display_io_error (OtherIo m) = m"

fun display_state_error :: "StateError \<Rightarrow> string" where
  "display_state_error (StateIo e) = ''io error: '' @ display_io_error e"
| "display_state_error (StateJson m) = ''json error: '' @ m"

fun display_core_error :: "CoreError \<Rightarrow> string" where
  "display_core_error (Imap m) = ''imap error: '' @ m"
| "display_core_error (Smtp m) = ''smtp error: '' @ m"
| "display_core_error (Sieve m) = ''sieve error: '' @ m"
| "display_core_error (State e) = ''state error: '' @ display_state_error e"
| "display_core_error (UidValidityChanged c s) =
     ''uidvalidity changed: cached='' @ show_word c @ '' server='' @ show_word s"
| "display_core_error (MissingCapability m) = ''missing required imap extension: '' @ m"
| "display_core_error (Io e) = ''io: '' @ display_io_error e"

section \<open>Messages, actions, results\<close>

record MessageContext =
  msg_uid :: u32
  msg_mailbox :: string
  msg_headers :: "string \<rightharpoonup> string"
  msg_envelope_from :: "string option"
  msg_envelope_to :: "string list"
  msg_raw :: "bytes option"
  msg_flags :: "string list"
  msg_size :: u32

definition header :: "MessageContext \<Rightarrow> string \<Rightarrow> string option" where
  "header self name = msg_headers self (to_ascii_lowercase name)"

datatype SieveAction =
    Keep
  | Discard
  | FileInto (fi_mailbox: string) (fi_copy: bool) (fi_create: bool)
  | Redirect "string list"
  | Reject string
  | AddFlag "string list"
  | RemoveFlag "string list"
  | SetFlag "string list"
  | Execute string "string list"

datatype ProcessingStatus = Ok | SieveError string | ActionError string

record ProcessingResult =
  pr_uid :: u32
  pr_actions :: "SieveAction list"
  pr_status :: ProcessingStatus

text \<open>The actions RFC 5228 calls dispositions: what becomes of the message.\<close>

fun is_FileInto :: "SieveAction \<Rightarrow> bool" where
  "is_FileInto (FileInto _ _ _) = True"
| "is_FileInto _ = False"

fun is_disposition :: "SieveAction \<Rightarrow> bool" where
  "is_disposition Keep = True"
| "is_disposition Discard = True"
| "is_disposition (FileInto _ _ _) = True"
| "is_disposition (Redirect _) = True"
| "is_disposition (Reject _) = True"
| "is_disposition _ = False"

lemma header_case_insensitive: "header ctx (to_ascii_lowercase n) = header ctx n"
  by (simp add: header_def)

section \<open>Header parsing\<close>

text \<open>First pass: unfold continuation lines; stop at the empty line that ends the header.\<close>

fun unfold_lines :: "string list \<Rightarrow> string \<Rightarrow> bool \<Rightarrow> string" where
  "unfold_lines [] unfolded prev_was_header = unfolded"
| "unfold_lines (line # ls) unfolded prev_was_header =
     (if line = [] then unfolded
      else if hd line = SP \<or> hd line = TAB then
        (if prev_was_header
         then unfold_lines ls (unfolded @ SP # trim_start line) prev_was_header
         else unfold_lines ls unfolded prev_was_header)
      else unfold_lines ls (unfolded @ LF # line) True)"

text \<open>Second pass: \<open>entry(name).and_modify(push ", " value).or_insert(value)\<close>.\<close>

definition parse_field :: "string \<Rightarrow> (string \<times> string) option" where
  "parse_field line =
     map_option (\<lambda>(name, value). (to_ascii_lowercase (trim name), trim value)) (split_once CHR '':'' line)"

definition add_header :: "(string \<rightharpoonup> string) \<Rightarrow> string \<Rightarrow> (string \<rightharpoonup> string)" where
  "add_header headers line =
     (if line = [] then headers
      else case parse_field line of
             None \<Rightarrow> headers
           | Some (name, value) \<Rightarrow>
               headers(name \<mapsto> (case headers name of Some v \<Rightarrow> v @ '', '' @ value | None \<Rightarrow> value)))"

definition parse_headers :: "bytes \<Rightarrow> (string \<rightharpoonup> string)" where
  "parse_headers raw =
     (let text = from_utf8_lossy raw;
          unfolded = unfold_lines (lines text) [] False
      in foldl add_header Map.empty (lines unfolded))"

subsection \<open>What the second pass builds\<close>

text \<open>The values of the fields named \<open>k\<close>, in the order of the lines.\<close>

definition values_of :: "string \<Rightarrow> string list \<Rightarrow> string list" where
  "values_of k ls =
     map snd (filter (\<lambda>(n, v). n = k) (List.map_filter parse_field ls))"

definition joined :: "string list \<Rightarrow> string option" where
  "joined vs = (if vs = [] then None else Some (join '', '' vs))"

lemma parse_field_Nil [simp]: "parse_field [] = None"
  by (simp add: parse_field_def)

lemma values_of_Nil [simp]: "values_of k [] = []"
  by (simp add: values_of_def)

lemma values_of_snoc:
  "values_of k (ls @ [l]) =
     values_of k ls @ (case parse_field l of None \<Rightarrow> [] | Some (n, v) \<Rightarrow> if n = k then [v] else [])"
  by (auto simp: values_of_def List.map_filter_def split: option.split)

lemma foldl_add_header: "foldl add_header Map.empty ls k = joined (values_of k ls)"
proof (induction ls rule: rev_induct)
  case Nil
  then show ?case by (simp add: joined_def)
next
  case (snoc l ls)
  then show ?case
    by (auto simp: add_header_def values_of_snoc joined_def join_snoc split: option.splits if_splits)
qed

lemma parse_field_wf:
  assumes "parse_field l = Some (k, v)" and "LF \<notin> set l"
  shows "to_ascii_lowercase k = k" and "CHR '':'' \<notin> set k" and "LF \<notin> set k" and "LF \<notin> set v"
proof -
  from assms(1) obtain n u where l: "split_once CHR '':'' l = Some (n, u)"
    and k: "k = to_ascii_lowercase (trim n)" and v: "v = trim u"
    by (auto simp: parse_field_def)
  from l have n: "CHR '':'' \<notin> set n" and "l = n @ CHR '':'' # u" by (simp_all add: split_once_Some)
  with assms(2) show "LF \<notin> set v" using set_trim [of u] by (auto simp: v)
  show "to_ascii_lowercase k = k" by (simp add: k)
  show "CHR '':'' \<notin> set k"
    using n set_to_ascii_lowercase [of "CHR '':''" "trim n"] set_trim [of n] by (auto simp: k byte_def)
  show "LF \<notin> set k"
    using assms(2) \<open>l = _\<close> set_to_ascii_lowercase [of LF "trim n"] set_trim [of n] by (auto simp: k byte_def)
qed

lemma values_of_mem: "v \<in> set (values_of k ls) \<Longrightarrow> \<exists>l \<in> set ls. parse_field l = Some (k, v)"
  by (auto simp: values_of_def List.map_filter_def)

lemma parse_headers_values:
  assumes "parse_headers raw k = Some v"
  shows "\<exists>vs. vs \<noteq> [] \<and> v = join '', '' vs \<and>
    (\<forall>u \<in> set vs. \<exists>l. LF \<notin> set l \<and> parse_field l = Some (k, u))"
proof -
  let ?ls = "lines (unfold_lines (lines (from_utf8_lossy raw)) [] False)"
  from assms have "joined (values_of k ?ls) = Some v"
    by (simp add: parse_headers_def Let_def foldl_add_header)
  then have "values_of k ?ls \<noteq> []" and "v = join '', '' (values_of k ?ls)"
    by (auto simp: joined_def split: if_splits)
  then show ?thesis using values_of_mem lines_no_LF by blast
qed

lemma keys_lowercase:
  assumes "parse_headers raw k = Some v"
  shows "to_ascii_lowercase k = k"
  using parse_headers_values [OF assms] parse_field_wf(1) by (metis list.set_intros(1) neq_Nil_conv)

subsection \<open>Header blocks as they are written\<close>

text \<open>
  A header field as written: a first line, and continuation lines that start with white space.
  \<open>render_field\<close> is its text with CRLF line ends, \<open>logical_line\<close> the line it stands for.
\<close>

type_synonym written_field = "string \<times> string list"

definition plain_line :: "string \<Rightarrow> bool" where
  "plain_line l \<longleftrightarrow> l \<noteq> [] \<and> LF \<notin> set l \<and> CR \<notin> set l \<and> from_utf8_lossy l = l"

definition folding_ws :: "char \<Rightarrow> bool" where
  "folding_ws c \<longleftrightarrow> c = SP \<or> c = TAB"

definition wf_field :: "written_field \<Rightarrow> bool" where
  "wf_field f \<longleftrightarrow>
     plain_line (fst f) \<and> \<not> folding_ws (hd (fst f)) \<and>
     (\<forall>c \<in> set (snd f). plain_line c \<and> folding_ws (hd c))"

definition field_lines :: "written_field \<Rightarrow> string list" where
  "field_lines f = fst f # snd f"

definition render_field :: "written_field \<Rightarrow> string" where
  "render_field f = concat (map (\<lambda>l. l @ CRLF) (field_lines f))"

definition logical_line :: "written_field \<Rightarrow> string" where
  "logical_line f = fst f @ concat (map (\<lambda>c. SP # trim_start c) (snd f))"

lemma byte_CR_LF [simp]: "byte CR = 13" "byte LF = 10" "byte SP = 32" "byte TAB = 9"
  by (simp_all add: byte_def)

lemma lossy_lines:
  "\<forall>l \<in> set ls. from_utf8_lossy l = l \<Longrightarrow>
     from_utf8_lossy (concat (map (\<lambda>l. l @ CRLF) ls) @ CRLF @ s)
       = concat (map (\<lambda>l. l @ CRLF) ls) @ CRLF @ from_utf8_lossy s"
proof (induction ls)
  case (Cons l ls)
  then show ?case
    using from_utf8_lossy_cut [of CR l "LF # concat (map (\<lambda>l. l @ CRLF) ls) @ CRLF @ s"]
    by simp
qed simp

lemma concat_fields:
  "concat (map render_field fs) = concat (map (\<lambda>l. l @ CRLF) (concat (map field_lines fs)))"
  by (induction fs) (simp_all add: render_field_def)

lemma unfold_continuations:
  "\<forall>c \<in> set cs. plain_line c \<and> folding_ws (hd c) \<Longrightarrow>
     unfold_lines (cs @ ls) acc True =
       unfold_lines ls (acc @ concat (map (\<lambda>c. SP # trim_start c) cs)) True"
  by (induction cs arbitrary: acc) (auto simp: plain_line_def folding_ws_def)

lemma unfold_fields:
  assumes "\<forall>f \<in> set fs. wf_field f"
  shows "unfold_lines (concat (map field_lines fs) @ [] # rest) acc prev =
           acc @ concat (map (\<lambda>f. LF # logical_line f) fs)"
  using assms
proof (induction fs arbitrary: acc prev)
  case (Cons f fs)
  then have f: "wf_field f" and fs: "\<forall>f \<in> set fs. wf_field f" by auto
  from f have "unfold_lines (concat (map field_lines (f # fs)) @ [] # rest) acc prev
      = unfold_lines (snd f @ concat (map field_lines fs) @ [] # rest) (acc @ LF # fst f) True"
    by (simp add: wf_field_def field_lines_def plain_line_def folding_ws_def)
  also have "\<dots> = unfold_lines (concat (map field_lines fs) @ [] # rest)
      (acc @ LF # fst f @ concat (map (\<lambda>c. SP # trim_start c) (snd f))) True"
    using f by (subst unfold_continuations) (simp_all add: wf_field_def)
  finally show ?case
    using Cons.IH [OF fs] by (simp add: logical_line_def)
qed simp

lemma set_trim_start: "set (trim_start s) \<subseteq> set s"
  using trim_by_suffix [of s ws2 ws3] unfolding trim_start_def by (metis Un_upper2 set_append)

lemma logical_line_plain:
  assumes "wf_field f"
  shows "LF \<notin> set (logical_line f)" and "CR \<notin> set (logical_line f)" and "logical_line f \<noteq> []"
proof -
  have "x \<in> set (concat (map (\<lambda>c. SP # trim_start c) cs)) \<Longrightarrow> x = SP \<or> (\<exists>c \<in> set cs. x \<in> set c)"
    for x cs
    by (induction cs) (auto dest: subsetD [OF set_trim_start])
  then have "x \<in> set (logical_line f) \<Longrightarrow> x = SP \<or> (\<exists>c \<in> set (field_lines f). x \<in> set c)" for x
    unfolding logical_line_def field_lines_def by auto
  moreover have "\<forall>c \<in> set (field_lines f). LF \<notin> set c \<and> CR \<notin> set c"
    using assms by (auto simp: wf_field_def plain_line_def field_lines_def)
  ultimately show "LF \<notin> set (logical_line f)" and "CR \<notin> set (logical_line f)"
    by fastforce+
  show "logical_line f \<noteq> []"
    using assms by (simp add: logical_line_def wf_field_def plain_line_def)
qed

lemma lines_LF_prefixed:
  "\<forall>l \<in> set ls. LF \<notin> set l \<and> CR \<notin> set l \<and> l \<noteq> [] \<Longrightarrow>
     lines (concat (map (\<lambda>l. LF # l) ls)) = (if ls = [] then [] else [] # ls)"
proof (induction ls)
  case (Cons l ls)
  have blank: "lines (LF # t) = [] # lines t" for t
    using lines_LF [of "[]" t] by simp
  have "lines (l @ concat (map ((#) LF) ls)) = l # ls"
  proof (cases ls)
    case Nil
    with Cons.prems show ?thesis by (simp add: lines_last)
  next
    case ls: (Cons l' ls')
    let ?t = "l' @ concat (map ((#) LF) ls')"
    have "[] # lines ?t = [] # ls"
      using Cons.IH Cons.prems blank [of ?t] by (simp add: ls)
    then have "lines ?t = ls" by simp
    moreover have "lines (l @ LF # ?t) = l # lines ?t"
      using Cons.prems lines_LF [of l ?t] by simp
    ultimately show ?thesis by (simp only: ls list.map concat.simps append_Cons)
  qed
  then show ?case by (simp add: blank)
qed simp

text \<open>
  The parser reads a well-formed header block as the logical lines of its fields, whatever body
  follows the empty line.
\<close>

lemma parse_headers_block:
  assumes "\<forall>f \<in> set fs. wf_field f"
  shows "parse_headers (concat (map render_field fs) @ CRLF @ body) =
           (\<lambda>k. joined (values_of k (map logical_line fs)))"
proof -
  let ?ls = "concat (map field_lines fs)"
  have pl: "\<forall>l \<in> set ?ls. plain_line l"
    using assms by (auto simp: wf_field_def field_lines_def)
  have "from_utf8_lossy (concat (map render_field fs) @ CRLF @ body)
      = concat (map (\<lambda>l. l @ CRLF) ?ls) @ CRLF @ from_utf8_lossy body"
    unfolding concat_fields using pl by (intro lossy_lines) (simp add: plain_line_def)
  moreover have "lines (concat (map (\<lambda>l. l @ CRLF) ?ls) @ CRLF @ from_utf8_lossy body)
      = ?ls @ [] # lines (from_utf8_lossy body)"
    using pl lines_CRLF [of "[]" "from_utf8_lossy body"]
    by (subst lines_concat_CRLF) (auto simp: plain_line_def)
  ultimately have "parse_headers (concat (map render_field fs) @ CRLF @ body)
      = foldl add_header Map.empty (lines (concat (map (\<lambda>l. LF # l) (map logical_line fs))))"
    using assms by (simp add: parse_headers_def unfold_fields comp_def)
  also have "lines (concat (map (\<lambda>l. LF # l) (map logical_line fs)))
      = (if fs = [] then [] else [] # map logical_line fs)"
    using assms logical_line_plain by (subst lines_LF_prefixed) auto
  also have "foldl add_header Map.empty \<dots> = foldl add_header Map.empty (map logical_line fs)"
    by (simp add: add_header_def)
  finally show ?thesis by (simp add: fun_eq_iff foldl_add_header)
qed

text \<open>
  The name and the value of a field, as they are written: what is before and after the first colon
  of its logical line.
\<close>

definition has_colon :: "written_field \<Rightarrow> bool" where
  "has_colon f \<longleftrightarrow> CHR '':'' \<in> set (logical_line f)"

definition written_name :: "written_field \<Rightarrow> string" where
  "written_name f = takeWhile (\<lambda>c. c \<noteq> CHR '':'') (logical_line f)"

definition written_value :: "written_field \<Rightarrow> string" where
  "written_value f = drop (Suc (length (written_name f))) (logical_line f)"

lemma parse_field_written:
  "parse_field (logical_line f) =
     (if has_colon f then Some (to_ascii_lowercase (trim (written_name f)), trim (written_value f)) else None)"
proof (cases "has_colon f")
  case True
  then obtain n v where l: "logical_line f = n @ CHR '':'' # v" and n: "CHR '':'' \<notin> set n"
    unfolding has_colon_def by (meson split_list_first)
  then have "written_name f = n" by (simp add: written_name_def)
  moreover from this l have "written_value f = v" by (simp add: written_value_def)
  ultimately show ?thesis using True l n by (simp add: parse_field_def)
next
  case False
  then show ?thesis
    by (cases "split_once CHR '':'' (logical_line f)") (auto simp: parse_field_def has_colon_def split_once_Some)
qed

lemma values_of_written:
  "values_of k (map logical_line fs) =
     map (\<lambda>f. trim (written_value f)) (filter (\<lambda>f. to_ascii_lowercase (trim (written_name f)) = k) (filter has_colon fs))"
  by (induction fs) (simp_all add: values_of_def List.map_filter_simps parse_field_written)

section \<open>Properties\<close>

text \<open>
  C26. Looking a header up in a parsed message gives the values of all fields of that name, in
  whatever case the name is written on either side, unfolded and trimmed, joined by a comma in
  the order of the message; a name that does not occur gives nothing. The message is any header
  block of well-formed fields, an empty line, and any bytes as its body.
\<close>

theorem header_of_parsed_message:
  assumes "\<forall>f \<in> set fs. wf_field f"
    and "msg_headers ctx = parse_headers (concat (map render_field fs) @ CRLF @ body)"
  shows "header ctx name =
           joined (map (\<lambda>f. trim (written_value f))
                     (filter (\<lambda>f. to_ascii_lowercase (trim (written_name f)) = to_ascii_lowercase name)
                        (filter has_colon fs)))"
  unfolding header_def assms(2) parse_headers_block [OF assms(1)] values_of_written by (rule refl)

definition two_fields :: "written_field list" where
  "two_fields = [(''To: a'', [TAB # ''b'']), (''TO:c'', [])]"

lemma two_fields_wf: "\<forall>f \<in> set two_fields. wf_field f"
  by (simp add: two_fields_def wf_field_def plain_line_def folding_ws_def byte_def)

definition with_headers :: "(string \<rightharpoonup> string) \<Rightarrow> MessageContext" where
  "with_headers h =
     \<lparr>msg_uid = 1, msg_mailbox = [], msg_headers = h, msg_envelope_from = None,
      msg_envelope_to = [], msg_raw = None, msg_flags = [], msg_size = 0\<rparr>"

theorem header_of_parsed_message_witness:
  "parse_headers (concat (map render_field two_fields) @ CRLF @ ''body'') ''to'' = Some ''a b, c''"
proof -
  let ?h = "parse_headers (concat (map render_field two_fields) @ CRLF @ ''body'')"
  let ?ctx = "with_headers ?h"
  have "header ?ctx ''To'' =
      joined (map (\<lambda>f. trim (written_value f))
        (filter (\<lambda>f. to_ascii_lowercase (trim (written_name f)) = to_ascii_lowercase ''To'') (filter has_colon two_fields)))"
    using two_fields_wf by (rule header_of_parsed_message) (simp add: with_headers_def)
  also have "\<dots> = Some ''a b, c''" by code_simp
  also have "header ?ctx ''To'' = ?h ''to''" proof -
    have "to_ascii_lowercase ''To'' = ''to''" by code_simp
    then show ?thesis by (simp add: header_def with_headers_def)
  qed
  finally show ?thesis by simp
qed

text \<open>
  The names in a parsed header map are in lower case, for every input: so a lookup through
  \<open>header\<close>, which lowers the name it is given, can find each of them.
\<close>

theorem parsed_names_found:
  assumes "parse_headers raw name = Some value" and "msg_headers ctx = parse_headers raw"
  shows "header ctx name = Some value"
  using keys_lowercase [OF assms(1)] assms by (simp add: header_def)

theorem parsed_names_found_witness:
  "header (with_headers (parse_headers (''Subject: x'' @ CRLF))) ''subject'' = Some ''x''"
proof (rule parsed_names_found)
  show "parse_headers (''Subject: x'' @ CRLF) ''subject'' = Some ''x''" by code_simp
qed (simp add: with_headers_def)

text \<open>
  C31. Whatever bytes a message is made of, its header map is well formed: a name is in lower case, has
  no colon and no line break, and a value has no line break either, folded fields and repeated ones
  included, so that no value can be taken for another field.
\<close>

theorem parsed_headers_wf:
  assumes "parse_headers raw name = Some value"
  shows "to_ascii_lowercase name = name \<and> CHR '':'' \<notin> set name \<and> LF \<notin> set name \<and> LF \<notin> set value"
proof -
  from parse_headers_values [OF assms] obtain vs where vs: "vs \<noteq> []" "value = join '', '' vs"
    and fields: "\<forall>u \<in> set vs. \<exists>l. LF \<notin> set l \<and> parse_field l = Some (name, u)" by blast
  from vs(1) have "hd vs \<in> set vs" by simp
  with fields have "to_ascii_lowercase name = name \<and> CHR '':'' \<notin> set name \<and> LF \<notin> set name"
    using parse_field_wf by metis
  moreover have "LF \<notin> set u" if "u \<in> set vs" for u
    using that fields parse_field_wf(4) by metis
  then have "LF \<notin> set value" using set_join [of "'', ''" vs] by (auto simp: vs(2))
  ultimately show ?thesis by blast
qed

theorem parsed_headers_wf_witness:
  "LF \<notin> set ''a b'' \<and> to_ascii_lowercase ''subject'' = ''subject''"
proof -
  have "parse_headers (''SUBJECT: a'' @ CRLF @ TAB # ''b'' @ CRLF @ CRLF) ''subject'' = Some ''a b''" by code_simp
  from parsed_headers_wf [OF this] show ?thesis by blast
qed

end
