(* ===== verification/Imap_Client.thy ===== *)
theory Imap_Client
  imports Types
begin

text \<open>
  \<open>imap_client.rs\<close>, the interface: capabilities, mailbox status, the \<open>ImapClient\<close> trait as a
  record of its methods over the outside world \<open>'w\<close>, the MOVE fallback, and the in-memory
  \<open>FakeImap\<close>. The production client is in theory \<open>Async_Imap\<close>.
\<close>

section \<open>Data\<close>

record Capabilities =
  cap_idle :: bool
  cap_uidplus :: bool
  cap_supports_move :: bool
  cap_condstore :: bool
  cap_qresync :: bool

definition default_Capabilities :: Capabilities where
  "default_Capabilities = \<lparr>cap_idle = False, cap_uidplus = False, cap_supports_move = False,
                           cap_condstore = False, cap_qresync = False\<rparr>"

record MailboxStatus =
  mb_uidvalidity :: u32
  mb_uidnext :: u32
  mb_exists :: u32
  mb_highestmodseq :: "u64 option"

datatype IdleEvent = Exists u32 | Interrupted | Disconnected

datatype FlagOp = Add | Remove | Set

section \<open>The trait\<close>

text \<open>Durations are milliseconds here; the only one passed is the IDLE timeout.\<close>

record 'w ImapClient =
  capabilities :: "('w, CoreError, Capabilities) io"
  select :: "string \<Rightarrow> ('w, CoreError, MailboxStatus) io"
  fetch_uid_range :: "string \<Rightarrow> u32 \<Rightarrow> u64 option \<Rightarrow> ('w, CoreError, MessageContext list) io"
  uid_move :: "u32 \<Rightarrow> string \<Rightarrow> ('w, CoreError, unit) io"
  uid_copy :: "u32 \<Rightarrow> string \<Rightarrow> ('w, CoreError, unit) io"
  uid_store_flags :: "u32 \<Rightarrow> FlagOp \<Rightarrow> string list \<Rightarrow> ('w, CoreError, unit) io"
  uid_expunge :: "u32 list \<Rightarrow> ('w, CoreError, unit) io"
  uid_create_mailbox :: "string \<Rightarrow> ('w, CoreError, unit) io"
  idle :: "nat \<Rightarrow> ('w, CoreError, IdleEvent) io"

definition Deleted :: string where
  "Deleted = CHR 0x5C # ''Deleted''"

text \<open>MOVE, or COPY then STORE \<open>\Deleted\<close> then (with UIDPLUS) EXPUNGE.\<close>

definition move_with_fallback ::
    "'w ImapClient \<Rightarrow> Capabilities \<Rightarrow> u32 \<Rightarrow> string \<Rightarrow> ('w, CoreError, unit) io" where
  "move_with_fallback client caps uid target =
     (if cap_supports_move caps then uid_move client uid target
      else
        bind_io (uid_copy client uid target) (\<lambda>_.
        bind_io (uid_store_flags client uid Add [Deleted]) (\<lambda>_.
        bind_io (if cap_uidplus caps then uid_expunge client [uid] else ret_io ()) (\<lambda>_.
        ret_io ()))))"

section \<open>The in-memory fake\<close>

datatype Op =
    Move u32 string
  | Copy u32 string
  | Store u32 FlagOp "string list"
  | Expunge "u32 list"
  | CreateMailbox string

record FakeImap =
  fk_caps :: Capabilities
  fk_status :: MailboxStatus
  fk_fetch_responses :: "MessageContext list"
  fk_ops :: "Op list"

definition new_FakeImap :: FakeImap where
  "new_FakeImap =
     \<lparr>fk_caps = \<lparr>cap_idle = True, cap_uidplus = True, cap_supports_move = True,
                 cap_condstore = False, cap_qresync = False\<rparr>,
      fk_status = \<lparr>mb_uidvalidity = 1, mb_uidnext = 1, mb_exists = 0, mb_highestmodseq = None\<rparr>,
      fk_fetch_responses = [], fk_ops = []\<rparr>"

definition with_caps :: "FakeImap \<Rightarrow> Capabilities \<Rightarrow> FakeImap" where
  "with_caps self caps = self\<lparr>fk_caps := caps\<rparr>"

definition push_op :: "Op \<Rightarrow> (FakeImap, CoreError, unit) io" where
  "push_op op self = (Inr (), self\<lparr>fk_ops := fk_ops self @ [op]\<rparr>)"

definition fake_ops :: "FakeImap \<Rightarrow> Op list" where
  "fake_ops self = fk_ops self"

definition fake_imap :: "FakeImap ImapClient" where
  "fake_imap =
     \<lparr>capabilities = (\<lambda>self. (Inr (fk_caps self), self)),
      select = (\<lambda>_ self. (Inr (fk_status self), self)),
      fetch_uid_range = (\<lambda>_ _ _ self.
        (Inr (fk_fetch_responses self), self\<lparr>fk_fetch_responses := []\<rparr>)),
      uid_move = (\<lambda>uid target. push_op (Move uid target)),
      uid_copy = (\<lambda>uid target. push_op (Copy uid target)),
      uid_store_flags = (\<lambda>uid op flags. push_op (Store uid op flags)),
      uid_expunge = (\<lambda>uids. push_op (Expunge uids)),
      uid_create_mailbox = (\<lambda>mailbox. push_op (CreateMailbox mailbox)),
      idle = (\<lambda>_ self. (Inr Interrupted, self))\<rparr>"

section \<open>Commands, abstractly\<close>

text \<open>
  The five commands that change a mailbox, run by name; \<open>uid_of\<close> is the message a command is
  about.
\<close>

fun run_op :: "'w ImapClient \<Rightarrow> Op \<Rightarrow> ('w, CoreError, unit) io" where
  "run_op C (Move u t) = uid_move C u t"
| "run_op C (Copy u t) = uid_copy C u t"
| "run_op C (Store u f fl) = uid_store_flags C u f fl"
| "run_op C (Expunge us) = uid_expunge C us"
| "run_op C (CreateMailbox m) = uid_create_mailbox C m"

fun about :: "u32 \<Rightarrow> Op \<Rightarrow> bool" where
  "about u (Move v _) \<longleftrightarrow> v = u"
| "about u (Copy v _) \<longleftrightarrow> v = u"
| "about u (Store v _ _) \<longleftrightarrow> v = u"
| "about u (Expunge vs) \<longleftrightarrow> vs = [u]"
| "about u (CreateMailbox _) \<longleftrightarrow> True"

fun run_ops :: "'w ImapClient \<Rightarrow> Op list \<Rightarrow> ('w, CoreError, unit) io" where
  "run_ops C [] = ret_io ()"
| "run_ops C (op # ops) = bind_io (run_op C op) (\<lambda>_. run_ops C ops)"

definition move_ops :: "Capabilities \<Rightarrow> u32 \<Rightarrow> string \<Rightarrow> Op list" where
  "move_ops caps u t =
     (if cap_supports_move caps then [Move u t]
      else [Copy u t, Store u Add [Deleted]] @ (if cap_uidplus caps then [Expunge [u]] else []))"

lemma move_with_fallback_ops: "move_with_fallback C caps u t = run_ops C (move_ops caps u t)"
  by (simp add: move_with_fallback_def move_ops_def)

lemma move_ops_about: "op \<in> set (move_ops caps u t) \<Longrightarrow> about u op"
  by (auto simp: move_ops_def split: if_splits)

section \<open>What a command may touch\<close>

text \<open>
  The frame law of a client for one message: whatever a command about message \<open>u\<close> does, and
  however it ends, the world after it is related to the world before it by \<open>R\<close>. Take for \<open>R\<close> that
  everything not about \<open>u\<close> is as it was, or that it is as it was but for mail that has arrived.
\<close>

locale imap_frame =
  fixes C :: "'w ImapClient" and R :: "'w \<Rightarrow> 'w \<Rightarrow> bool" and u :: u32
  assumes R_refl: "R w w"
    and R_trans: "R w w' \<Longrightarrow> R w' w'' \<Longrightarrow> R w w''"
    and frame: "about u op \<Longrightarrow> R w (snd (run_op C op w))"
begin

lemma keeps_R: "(\<And>w. R w (snd (m w))) \<Longrightarrow> keeps (R w0) m"
  by (auto simp: keeps_def intro: R_trans)

lemma keeps_op: "about u op \<Longrightarrow> keeps (R w0) (run_op C op)"
  by (rule keeps_R) (rule frame)

lemma keeps_ops: "\<forall>op \<in> set ops. about u op \<Longrightarrow> keeps (R w0) (run_ops C ops)"
  by (induction ops) (auto intro!: keeps_bind keeps_ret keeps_op)

lemma keeps_move: "keeps (R w0) (move_with_fallback C caps u t)"
  unfolding move_with_fallback_ops by (rule keeps_ops) (auto dest: move_ops_about)

end

lemma fake_run_op: "run_op fake_imap op = push_op op"
  by (cases op) (simp_all add: fake_imap_def)

text \<open>In the fake, what is not about \<open>u\<close> is everything but the recorded commands about \<open>u\<close>.\<close>

definition fake_obs :: "u32 \<Rightarrow> FakeImap \<Rightarrow> Op list \<times> Capabilities \<times> MailboxStatus" where
  "fake_obs u self = (filter (\<lambda>op. \<not> about u op) (fk_ops self), fk_caps self, fk_status self)"

interpretation fake: imap_frame fake_imap "\<lambda>w w'. fake_obs u w' = fake_obs u w" u
  by unfold_locales (simp_all add: fake_run_op push_op_def fake_obs_def)

lemma fake_run_ops: "run_ops fake_imap ops self = (Inr (), self\<lparr>fk_ops := fk_ops self @ ops\<rparr>)"
  by (induction ops arbitrary: self) (simp_all add: bind_io_def fake_run_op push_op_def)

end
