(* ===== verification/State_Store.thy ===== *)
theory State_Store
  imports Types
begin

text \<open>
  \<open>state.rs\<close>: the persistent state, and its store with atomic writes.

  The file system is a map from paths to contents, together with a fault plan: call number \<open>n\<close>
  fails with the error \<open>fault n\<close> if there is one. A write that fails may leave any prefix of its
  data behind (\<open>torn\<close>). \<open>tmp_name n\<close> is the name the \<open>tempfile\<close> crate picks at call \<open>n\<close>; that it
  is a new name is a hypothesis (\<open>tmp_fresh\<close>) where a property needs it. \<open>serde_json\<close> is the
  parameter \<open>Serde\<close>. Directories are not modelled: a missing one shows up as a fault. Two things
  are simpler than on a real file system: removing the temporary file on an early return always
  succeeds, and \<open>sync_all\<close> changes nothing that a program can see, since a power failure that loses
  written data is not modelled. Paths are texts split at \<open>/\<close>; \<open>.\<close> and \<open>..\<close> are plain names.
\<close>

section \<open>The state and its store\<close>

record State =
  st_selected_mailbox :: "string option"
  st_uidvalidity :: "u32 option"
  st_last_seen_uid :: "u32 option"
  st_highestmodseq :: "u64 option"

definition default_State :: State where
  "default_State = \<lparr>st_selected_mailbox = None, st_uidvalidity = None, st_last_seen_uid = None,
                    st_highestmodseq = None\<rparr>"

record StateStore =
  ss_path :: string
  ss_state :: State

definition state :: "StateStore \<Rightarrow> State" where
  "state self = ss_state self"

record Serde =
  to_vec :: "State \<Rightarrow> string + bytes"
  from_slice :: "bytes \<Rightarrow> string + State"

section \<open>The file system\<close>

record disk =
  files :: "string \<rightharpoonup> bytes"
  calls :: nat
  fault :: "nat \<Rightarrow> io_error option"
  torn :: "nat \<Rightarrow> nat"
  tmp_name :: "nat \<Rightarrow> string"

definition fs_call :: "(disk \<Rightarrow> (io_error + 'a) \<times> disk) \<Rightarrow> (disk, io_error, 'a) io" where
  "fs_call body d =
     (let d' = d\<lparr>calls := Suc (calls d)\<rparr> in
      case fault d (calls d) of Some e \<Rightarrow> (Inl e, d') | None \<Rightarrow> body d')"

definition create_dir_all :: "string \<Rightarrow> (disk, io_error, unit) io" where
  "create_dir_all dir = fs_call (ret_io ())"

definition fs_read :: "string \<Rightarrow> (disk, io_error, bytes) io" where
  "fs_read path = fs_call (\<lambda>d. case files d path of
       None \<Rightarrow> (Inl (NotFound ''No such file or directory''), d)
     | Some b \<Rightarrow> (Inr b, d))"

text \<open>
  The steps of an atomic write. A failing write leaves a prefix of its data; every other failing
  step leaves the files as they were.
\<close>

datatype fs_step =
    CreateTmp string
  | WriteTmp string bytes
  | SyncTmp string
  | RenameTmp string string

fun step_files :: "fs_step \<Rightarrow> (string \<rightharpoonup> bytes) \<Rightarrow> (string \<rightharpoonup> bytes)" where
  "step_files (CreateTmp t) fs = fs(t \<mapsto> [])"
| "step_files (WriteTmp t b) fs = fs(t \<mapsto> b)"
| "step_files (SyncTmp t) fs = fs"
| "step_files (RenameTmp t p) fs = (fs(p := fs t))(t := None)"

fun torn_files :: "nat \<Rightarrow> fs_step \<Rightarrow> (string \<rightharpoonup> bytes) \<Rightarrow> (string \<rightharpoonup> bytes)" where
  "torn_files n (WriteTmp t b) fs = fs(t \<mapsto> take n b)"
| "torn_files n s fs = fs"

fun run_steps :: "fs_step list \<Rightarrow> (disk, io_error, unit) io" where
  "run_steps [] d = (Inr (), d)"
| "run_steps (s # ss) d =
     (let d' = d\<lparr>calls := Suc (calls d)\<rparr> in
      case fault d (calls d) of
        Some e \<Rightarrow> (Inl e, d'\<lparr>files := torn_files (torn d (calls d)) s (files d)\<rparr>)
      | None \<Rightarrow> run_steps ss (d'\<lparr>files := step_files s (files d)\<rparr>))"

section \<open>The store's operations\<close>

text \<open>
  \<open>Path::parent\<close>: nothing for the root and the empty path, the root for a name in it, the empty path
  for a bare name; slashes at the end and repeated ones do not count. \<open>Path::join\<close> takes a relative path.
\<close>

definition drop_slashes :: "string \<Rightarrow> string" where
  "drop_slashes p = rev (dropWhile (\<lambda>c. c = CHR ''/'') (rev p))"

definition path_parent :: "string \<Rightarrow> string option" where
  "path_parent p =
     (if drop_slashes p = [] then None
      else let dir = rev (dropWhile (\<lambda>c. c \<noteq> CHR ''/'') (rev (drop_slashes p)))
           in Some (if dir \<noteq> [] \<and> drop_slashes dir = [] then ''/'' else drop_slashes dir))"

definition path_join :: "string \<Rightarrow> string \<Rightarrow> string" where
  "path_join dir p = (if dir = [] \<or> last dir = CHR ''/'' then dir @ p else dir @ ''/'' @ p)"

definition open_store :: "Serde \<Rightarrow> string \<Rightarrow> (disk, StateError, StateStore) io" where
  "open_store serde path d =
     (case (case path_parent path of
              None \<Rightarrow> (Inr (), d) | Some parent \<Rightarrow> create_dir_all parent d) of
        (Inl e, d) \<Rightarrow> (Inl (StateIo e), d)
      | (Inr _, d) \<Rightarrow>
     case fs_read path d of
        (Inr b, d) \<Rightarrow>
          (case from_slice serde b of
             Inl m \<Rightarrow> (Inl (StateJson m), d)
           | Inr st \<Rightarrow> (Inr \<lparr>ss_path = path, ss_state = st\<rparr>, d))
      | (Inl (NotFound _), d) \<Rightarrow> (Inr \<lparr>ss_path = path, ss_state = default_State\<rparr>, d)
      | (Inl e, d) \<Rightarrow> (Inl (StateIo e), d))"

text \<open>The temporary file of a write: in the directory of the target, under a name of \<open>tempfile\<close>.\<close>

definition tmp_path :: "string \<Rightarrow> disk \<Rightarrow> string" where
  "tmp_path path d =
     path_join (case path_parent path of None \<Rightarrow> ''.'' | Some dir \<Rightarrow> dir) (tmp_name d (calls d))"

definition persist_steps :: "string \<Rightarrow> string \<Rightarrow> bytes \<Rightarrow> fs_step list" where
  "persist_steps path tmp b = [CreateTmp tmp, WriteTmp tmp b, SyncTmp tmp, RenameTmp tmp path]"

text \<open>
  On an early return the \<open>NamedTempFile\<close> guard is dropped, which removes the temporary file.
\<close>

definition persist :: "Serde \<Rightarrow> StateStore \<Rightarrow> (disk, StateError, unit) io" where
  "persist serde self d =
     (case to_vec serde (ss_state self) of
        Inl m \<Rightarrow> (Inl (StateJson m), d)
      | Inr b \<Rightarrow>
          let tmp = tmp_path (ss_path self) d in
          case run_steps (persist_steps (ss_path self) tmp b) d of
            (Inr _, d') \<Rightarrow> (Inr (), d')
          | (Inl e, d') \<Rightarrow> (Inl (StateIo e), d'\<lparr>files := (files d')(tmp := None)\<rparr>))"

definition update :: "Serde \<Rightarrow> (State \<Rightarrow> State) \<Rightarrow> (StateStore \<times> disk, StateError, unit) io" where
  "update serde f w =
     (let self = (fst w)\<lparr>ss_state := f (ss_state (fst w))\<rparr>;
          (r, d) = persist serde self (snd w)
      in (r, (self, d)))"

section \<open>Lemmas\<close>

definition tmp_fresh :: "string \<Rightarrow> disk \<Rightarrow> bool" where
  "tmp_fresh path d \<longleftrightarrow> tmp_path path d \<noteq> path \<and> files d (tmp_path path d) = None"

lemma persist_cases:
  assumes "persist serde self d = (r, d')" and "tmp_fresh (ss_path self) d"
  shows "(\<exists>b. to_vec serde (ss_state self) = Inr b \<and> r = Inr () \<and>
            files d' = (files d)(ss_path self \<mapsto> b)) \<or>
         (\<exists>e. r = Inl e \<and> files d' = files d)"
proof (cases "to_vec serde (ss_state self)")
  case (Inl m)
  with assms show ?thesis by (auto simp: persist_def)
next
  case (Inr b)
  let ?t = "tmp_path (ss_path self) d"
  have tp: "?t \<noteq> ss_path self" and tn: "files d ?t = None"
    using assms(2) by (auto simp: tmp_fresh_def)
  have clean: "((files d)(?t := x))(?t := None) = files d" "(files d)(?t := None) = files d" for x
    using tn by auto
  have ren: "((files d)(?t \<mapsto> b, ss_path self \<mapsto> b))(?t := None) = (files d)(ss_path self \<mapsto> b)"
    using tp tn by auto
  from Inr assms(1) show ?thesis
    using clean ren tp
    by (auto simp: persist_def persist_steps_def Let_def fun_upd_twist split: option.splits)
qed

lemma update_cases:
  assumes "update serde f (self, d) = (r, (self', d'))" and "tmp_fresh (ss_path self) d"
  shows "ss_state self' = f (ss_state self)" and "ss_path self' = ss_path self"
    and "(\<exists>b. to_vec serde (f (ss_state self)) = Inr b \<and> r = Inr () \<and>
            files d' = (files d)(ss_path self \<mapsto> b)) \<or>
         (\<exists>e. r = Inl e \<and> files d' = files d)"
  using assms persist_cases [of serde "self\<lparr>ss_state := f (ss_state self)\<rparr>" d]
  by (auto simp: update_def Let_def split: prod.splits)

text \<open>
  No name that \<open>tempfile\<close> could pick, now or later, is in use. Writes keep it so, because they
  leave no temporary file behind, whether they succeed or fail.
\<close>

definition tmp_clean :: "string \<Rightarrow> disk \<Rightarrow> bool" where
  "tmp_clean path d \<longleftrightarrow> (\<forall>n. tmp_fresh path (d\<lparr>calls := n\<rparr>))"

lemma tmp_clean_fresh: "tmp_clean path d \<Longrightarrow> tmp_fresh path d"
proof -
  assume "tmp_clean path d"
  then have "tmp_fresh path (d\<lparr>calls := calls d\<rparr>)" unfolding tmp_clean_def by blast
  then show ?thesis by simp
qed

lemma run_steps_frame [simp, frame_simps]:
  "tmp_name (snd (run_steps steps d)) = tmp_name d" "fault (snd (run_steps steps d)) = fault d"
  by (induction steps arbitrary: d) (simp_all add: Let_def split: option.split)

lemma run_steps_same: "run_steps steps d = (r, d') \<Longrightarrow> tmp_name d' = tmp_name d \<and> fault d' = fault d"
  using run_steps_frame [of steps d] by simp

lemma persist_frame [simp, frame_simps]:
  "tmp_name (snd (persist serde self d)) = tmp_name d" "fault (snd (persist serde self d)) = fault d"
  by (auto simp: persist_def Let_def dest: run_steps_same split: sum.split prod.split)

lemma tmp_clean_files:
  assumes "tmp_clean path d" and "tmp_name d' = tmp_name d"
    and "files d' = files d \<or> files d' = (files d)(path \<mapsto> b)"
  shows "tmp_clean path d'"
  using assms by (auto simp: tmp_clean_def tmp_fresh_def tmp_path_def)

lemma persist_clean:
  assumes "tmp_clean (ss_path self) d"
  shows "tmp_clean (ss_path self) (snd (persist serde self d))"
proof (cases "persist serde self d")
  case (Pair r d')
  from persist_cases [OF Pair tmp_clean_fresh [OF assms]]
  obtain b where "files d' = files d \<or> files d' = (files d)(ss_path self \<mapsto> b)" by blast
  with assms Pair persist_frame [of serde self d] show ?thesis
    by (auto intro: tmp_clean_files)
qed

lemma update_clean:
  "tmp_clean (ss_path (fst w)) (snd w) \<Longrightarrow>
     tmp_clean (ss_path (fst w)) (snd (snd (update serde f w)))"
  using persist_clean [of "(fst w)\<lparr>ss_state := f (ss_state (fst w))\<rparr>" "snd w" serde]
  by (auto simp: update_def Let_def split: prod.split)

lemma update_fault [simp, frame_simps]: "fault (snd (snd (update serde f st))) = fault (snd st)"
  using persist_frame(2) [of serde "(fst st)\<lparr>ss_state := f (ss_state (fst st))\<rparr>" "snd st"]
  by (cases "persist serde ((fst st)\<lparr>ss_state := f (ss_state (fst st))\<rparr>) (snd st)")
     (simp add: update_def Let_def)

lemma update_state [simp, frame_simps]:
  "ss_state (fst (snd (update serde f w))) = f (ss_state (fst w))"
  "ss_path (fst (snd (update serde f w))) = ss_path (fst w)"
  by (simp_all add: update_def Let_def split: prod.split)

text \<open>
  A crash stops the write after some of its steps, possibly in the middle of one. At every such
  point the target holds either its old contents or all of the new ones.
\<close>

definition crash_files :: "fs_step list \<Rightarrow> nat \<Rightarrow> nat \<Rightarrow> (string \<rightharpoonup> bytes) \<Rightarrow> (string \<rightharpoonup> bytes)" where
  "crash_files steps k n fs =
     (let fs' = foldl (\<lambda>f s. step_files s f) fs (take k steps) in
      if k < length steps then torn_files n (steps ! k) fs' else fs')"

lemma crash_persist:
  assumes "t \<noteq> p"
  shows "crash_files (persist_steps p t b) k n fs p \<in> {fs p, Some b}"
proof -
  consider "k = 0" | "k = 1" | "k = 2" | "k = 3" | "4 \<le> k" by linarith
  then show ?thesis
    using assms by cases (auto simp: crash_files_def persist_steps_def numeral_eq_Suc)
qed

section \<open>The store as its clients see it\<close>

text \<open>
  What the processor and the session manager rely on: \<open>update f\<close> applies \<open>f\<close> to the state in
  memory in every outcome, the failing ones included.
\<close>

locale state_cell =
  fixes upd :: "(State \<Rightarrow> State) \<Rightarrow> ('w, 'e, unit) io"
    and get :: "'w \<Rightarrow> State"
  assumes get_upd: "get (snd (upd f w)) = f (get w)"
begin

lemma get_upd_Ok: "upd f w = (r, w') \<Longrightarrow> get w' = f (get w)"
  using get_upd [of f w] by simp

text \<open>A field that the update function does not write is kept.\<close>

lemma get_upd_frame: "(\<And>s. field (f s) = field s) \<Longrightarrow> field (get (snd (upd f w))) = field (get w)"
  by (simp add: get_upd)

end

interpretation store: state_cell "update serde" "\<lambda>w. ss_state (fst w)"
  by unfold_locales simp

section \<open>How the store evolves\<close>

text \<open>
  Between two states of one store: a recorded UIDVALIDITY stays what it is, and a recorded UID
  never goes back.
\<close>

definition progress :: "State \<Rightarrow> State \<Rightarrow> bool" where
  "progress s s' \<longleftrightarrow>
     (\<forall>v. st_uidvalidity s = Some v \<longrightarrow> st_uidvalidity s' = Some v) \<and>
     (\<forall>u. st_last_seen_uid s = Some u \<longrightarrow> (\<exists>u' \<ge> u. st_last_seen_uid s' = Some u'))"

lemma progress_refl [simp]: "progress s s"
  by (auto simp: progress_def)

lemma progress_trans [trans]: "progress s s' \<Longrightarrow> progress s' s'' \<Longrightarrow> progress s s''"
  unfolding progress_def by (meson order_trans)

lemma progress_default [simp]: "progress default_State s"
  by (simp add: progress_def default_State_def)

text \<open>
  A relation between the store and disk before and after: a reflexive and transitive one that every
  update with a progressing function respects. The clients update the store with such functions
  only, so each of them respects the relation as a whole, and so does everything composed of them.
\<close>

locale store_evolution =
  fixes serde :: Serde and R :: "StateStore \<times> disk \<Rightarrow> StateStore \<times> disk \<Rightarrow> bool"
  assumes R_refl: "R st st"
    and R_trans: "R st st' \<Longrightarrow> R st' st'' \<Longrightarrow> R st st''"
    and R_update: "progress (ss_state (fst st)) (f (ss_state (fst st))) \<Longrightarrow> R st (snd (update serde f st))"
begin

lemma R_updated:
  "update serde f st = (r, st') \<Longrightarrow> progress (ss_state (fst st)) (f (ss_state (fst st))) \<Longrightarrow> R st st'"
  using R_update [of st f] by simp

end

text \<open>In memory, the state progresses.\<close>

definition memory_moves :: "StateStore \<times> disk \<Rightarrow> StateStore \<times> disk \<Rightarrow> bool" where
  "memory_moves st st' \<longleftrightarrow> progress (ss_state (fst st)) (ss_state (fst st'))"

interpretation memory: store_evolution serde memory_moves
  by unfold_locales (auto simp: memory_moves_def intro: progress_trans)

text \<open>
  On disk: the state file is missing or parses to a state that the one in memory has progressed
  from, which stays so, and what it parses to progresses too.
\<close>

definition file_state :: "Serde \<Rightarrow> StateStore \<times> disk \<Rightarrow> State option" where
  "file_state serde st =
     (case files (snd st) (ss_path (fst st)) of
        None \<Rightarrow> None
      | Some b \<Rightarrow> (case from_slice serde b of Inl _ \<Rightarrow> None | Inr s \<Rightarrow> Some s))"

definition consistent :: "Serde \<Rightarrow> StateStore \<times> disk \<Rightarrow> bool" where
  "consistent serde st \<longleftrightarrow>
     tmp_clean (ss_path (fst st)) (snd st) \<and>
     (files (snd st) (ss_path (fst st)) = None \<or>
      (\<exists>s. file_state serde st = Some s \<and> progress s (ss_state (fst st))))"

definition parses_back :: "Serde \<Rightarrow> bool" where
  "parses_back serde \<longleftrightarrow> (\<forall>s b. to_vec serde s = Inr b \<longrightarrow> from_slice serde b = Inr s)"

definition file_moves :: "Serde \<Rightarrow> StateStore \<times> disk \<Rightarrow> StateStore \<times> disk \<Rightarrow> bool" where
  "file_moves serde st st' \<longleftrightarrow> fault (snd st') = fault (snd st) \<and>
     (parses_back serde \<longrightarrow> consistent serde st \<longrightarrow>
        consistent serde st' \<and> ss_path (fst st') = ss_path (fst st) \<and>
        (\<forall>s. file_state serde st = Some s \<longrightarrow> (\<exists>s'. file_state serde st' = Some s' \<and> progress s s')))"

lemma file_moves_update:
  assumes "progress (ss_state (fst st)) (f (ss_state (fst st)))"
  shows "file_moves serde st (snd (update serde f st))"
proof (cases "parses_back serde \<and> consistent serde st")
  case True
  obtain self d self' d' r where st: "st = (self, d)" and up: "update serde f (self, d) = (r, (self', d'))"
    by (metis prod.collapse)
  from True have pb: "parses_back serde" and clean: "tmp_clean (ss_path self) d"
    and cur: "files d (ss_path self) = None \<or>
      (\<exists>s. file_state serde (self, d) = Some s \<and> progress s (ss_state self))"
    by (simp_all add: consistent_def st)
  note u = update_cases [OF up tmp_clean_fresh [OF clean]]
  have clean': "tmp_clean (ss_path self) d'"
    using update_clean [of "(self, d)" serde f] clean up by simp
  have ft: "fault d' = fault d" using update_fault [of serde f "(self, d)"] up by simp
  from u(3) show ?thesis
  proof (elim disjE exE conjE)
    fix b
    assume "to_vec serde (f (ss_state self)) = Inr b" and "files d' = (files d)(ss_path self \<mapsto> b)"
    with pb u(1,2) have "file_state serde (self', d') = Some (ss_state self')"
      by (simp add: file_state_def parses_back_def)
    with ft clean' u(1,2) cur assms show ?thesis
      by (auto simp: file_moves_def consistent_def st up file_state_def intro: progress_trans)
  next
    fix e
    assume same: "files d' = files d"
    then have "file_state serde (self', d') = file_state serde (self, d)"
      by (simp add: file_state_def u(2))
    with ft clean' u(1,2) cur assms same show ?thesis
      by (auto simp: file_moves_def consistent_def st up intro: progress_trans)
  qed
qed (auto simp: file_moves_def)

interpretation on_disk: store_evolution serde "file_moves serde"
proof
  show "file_moves serde st st''" if "file_moves serde st st'" "file_moves serde st' st''" for st st' st''
    using that unfolding file_moves_def by (metis progress_trans)
qed (simp_all add: file_moves_def [of _ st st for st] file_moves_update)

text \<open>A store that has just been opened is consistent with its file.\<close>

lemma open_store_files:
  "open_store serde path d = (r, d') \<Longrightarrow> files d' = files d \<and> tmp_name d' = tmp_name d \<and> fault d' = fault d"
  by (auto simp: open_store_def create_dir_all_def fs_read_def fs_call_def Let_def
      split: option.splits sum.splits prod.splits io_error.splits if_splits)

text \<open>A file call reports a missing file only if the file is missing.\<close>

definition honest :: "disk \<Rightarrow> bool" where
  "honest d \<longleftrightarrow> (\<forall>n m. fault d n \<noteq> Some (NotFound m))"

lemma open_store_state:
  assumes "open_store serde path d = (Inr st, d')" and "honest d"
  shows "ss_path st = path" and "files d path = None \<Longrightarrow> ss_state st = default_State"
    and "files d path \<noteq> None \<Longrightarrow> file_state serde (st, d) = Some (ss_state st)"
  using assms
  by (auto simp: open_store_def create_dir_all_def fs_read_def fs_call_def Let_def file_state_def honest_def
      split: option.splits sum.splits prod.splits io_error.splits if_splits)

lemma open_store_consistent:
  assumes "open_store serde path d = (Inr st, d')" and "honest d" and "tmp_clean path d"
  shows "consistent serde (st, d')"
proof -
  from open_store_files [OF assms(1)] have same: "files d' = files d" and clean: "tmp_clean path d'"
    using tmp_clean_files [OF assms(3)] by auto
  then have "file_state serde (st, d') = file_state serde (st, d)" by (simp add: file_state_def)
  with open_store_state [OF assms(1,2)] same clean show ?thesis
    by (cases "files d path") (auto simp: consistent_def)
qed

section \<open>Sample inputs\<close>

text \<open>
  For the evaluation of properties: a serializer that keeps the last seen UID only, a disk without
  faults, and a store on it.
\<close>

definition sample_serde :: Serde where
  "sample_serde =
     \<lparr>to_vec = (\<lambda>s. Inr (case st_last_seen_uid s of
                            None \<Rightarrow> [] | Some u \<Rightarrow> [char_of (unat u)])),
      from_slice = (\<lambda>b. Inr (default_State\<lparr>st_last_seen_uid :=
                       (case b of [] \<Rightarrow> None | c # _ \<Rightarrow> Some (of_nat (of_char c)))\<rparr>))\<rparr>"

definition sample_disk :: disk where
  "sample_disk = \<lparr>files = Map.empty, calls = 0, fault = (\<lambda>_. None), torn = (\<lambda>_. 0),
                  tmp_name = (\<lambda>_. ''.tmp'')\<rparr>"

definition sample_store :: "u32 \<Rightarrow> StateStore" where
  "sample_store uid = \<lparr>ss_path = ''/s/state.json'',
                       ss_state = default_State\<lparr>st_last_seen_uid := Some uid\<rparr>\<rparr>"

lemma tmp_clean_sample: "tmp_clean ''/s/state.json'' sample_disk"
  by (simp add: tmp_clean_def tmp_fresh_def tmp_path_def path_parent_def drop_slashes_def path_join_def sample_disk_def)

lemma update_no_fault:
  assumes "\<And>n. fault d n = None" and "to_vec serde (f (ss_state self)) = Inr b"
  shows "\<exists>d'. update serde f (self, d) = (Inr (), (self\<lparr>ss_state := f (ss_state self)\<rparr>, d')) \<and>
           (\<forall>n. fault d' n = None)"
  using assms by (simp add: update_def persist_def persist_steps_def Let_def)

lemma sample_update:
  assumes "\<And>n. fault d n = None"
  shows "\<exists>d'. update sample_serde f (self, d) = (Inr (), (self\<lparr>ss_state := f (ss_state self)\<rparr>, d')) \<and>
           (\<forall>n. fault d' n = None)"
  using update_no_fault [OF assms, of sample_serde] by (simp add: sample_serde_def)

text \<open>
  A serializer that keeps the whole state, numbers in unary, and parses back what it writes.
\<close>

definition unary :: "'a::len word option \<Rightarrow> string" where
  "unary x = (case x of None \<Rightarrow> [] | Some u \<Rightarrow> replicate (Suc (unat u)) CHR ''1'') @ '';''"

definition read_unary :: "string \<Rightarrow> 'a::len word option \<times> string" where
  "read_unary b =
     (let n = length (takeWhile (\<lambda>c. c = CHR ''1'') b) in
      (if n = 0 then None else Some (of_nat (n - 1)), drop (Suc n) b))"

definition full_serde :: Serde where
  "full_serde =
     \<lparr>to_vec = (\<lambda>s. Inr (unary (st_uidvalidity s) @ unary (st_last_seen_uid s) @ unary (st_highestmodseq s) @
                       (case st_selected_mailbox s of None \<Rightarrow> [] | Some m \<Rightarrow> CHR ''M'' # m))),
      from_slice = (\<lambda>b. case read_unary b of (v, b) \<Rightarrow> case read_unary b of (u, b) \<Rightarrow> case read_unary b of (q, b) \<Rightarrow>
        Inr \<lparr>st_selected_mailbox = (case b of [] \<Rightarrow> None | _ # m \<Rightarrow> Some m),
             st_uidvalidity = v, st_last_seen_uid = u, st_highestmodseq = q\<rparr>)\<rparr>"

lemma takeWhile_unary: "takeWhile (\<lambda>c. c = CHR ''1'') (replicate n CHR ''1'' @ CHR '';'' # b) = replicate n CHR ''1''"
  by (induction n) simp_all

lemma read_unary [simp]: "read_unary (unary x @ b) = (x, b)"
proof (cases x)
  case (Some u)
  have "takeWhile (\<lambda>c. c = CHR ''1'') (unary x @ b) = replicate (Suc (unat u)) CHR ''1''"
    using takeWhile_unary [of "Suc (unat u)" b] by (simp add: unary_def Some)
  then show ?thesis by (simp add: read_unary_def unary_def Some)
qed (simp add: read_unary_def unary_def)

lemma full_serde_parses_back: "parses_back full_serde"
  by (simp add: parses_back_def full_serde_def split: option.split)

lemma full_serde_opens:
  assumes "\<And>n. fault d n = None"
  shows "\<exists>st d'. open_store full_serde path d = (Inr st, d')"
proof -
  have "from_slice full_serde b \<noteq> Inl e" for b e
    by (simp add: full_serde_def split: prod.split)
  then show ?thesis
    using assms
    by (cases "path_parent path"; cases "files d path")
       (auto simp: open_store_def create_dir_all_def fs_read_def fs_call_def Let_def split: sum.split)
qed

section \<open>Properties\<close>

text \<open>
  C6. A write of the state is atomic. Stop the steps of an update anywhere, before, between or in
  the middle of them: the state file holds either exactly what it held before or exactly the new
  bytes. The name \<open>tempfile\<close> picked must be unused.
\<close>

theorem crash_atomic:
  assumes "tmp_fresh (ss_path self) d"
  shows "crash_files (persist_steps (ss_path self) (tmp_path (ss_path self) d) b) k n (files d) (ss_path self)
           \<in> {files d (ss_path self), Some b}"
  using assms by (intro crash_persist) (simp add: tmp_fresh_def)

theorem crash_atomic_witness:
  "crash_files (persist_steps ''/s/state.json'' (tmp_path ''/s/state.json'' sample_disk) ''{}'') 1 1
     (files sample_disk) ''/s/state.json'' \<in> {None, Some ''{}''}"
  using crash_atomic [of "sample_store 4" sample_disk "''{}''" 1 1] tmp_clean_fresh [OF tmp_clean_sample]
  by (simp add: sample_store_def sample_disk_def)

text \<open>
  C20. What an update that reported success has written is what the next start reads: opening the
  store again gives the updated state. The JSON written for that state must parse back to it, and
  the file calls of the opening must not fail.
\<close>

theorem update_then_open:
  assumes "update serde f (self, d) = (Inr (), (self', d'))" and "tmp_fresh (ss_path self) d"
    and "\<And>b. to_vec serde (f (ss_state self)) = Inr b \<Longrightarrow> from_slice serde b = Inr (f (ss_state self))"
    and "\<And>n. fault d' n = None"
  shows "fst (open_store serde (ss_path self) d') =
           Inr \<lparr>ss_path = ss_path self, ss_state = f (ss_state self)\<rparr>"
proof -
  from update_cases(3) [OF assms(1,2)] obtain b where "to_vec serde (f (ss_state self)) = Inr b"
    and "files d' (ss_path self) = Some b" by auto
  with assms(3,4) show ?thesis
    by (simp add: open_store_def create_dir_all_def fs_read_def fs_call_def Let_def split: option.split)
qed

theorem update_then_open_witness:
  "fst (open_store sample_serde ''/s/state.json''
      (snd (snd (update sample_serde (\<lambda>s. s\<lparr>st_last_seen_uid := Some 9\<rparr>) (sample_store 4, sample_disk))))) =
    Inr (sample_store 9)"
proof -
  let ?u = "update sample_serde (\<lambda>s. s\<lparr>st_last_seen_uid := Some 9\<rparr>) (sample_store 4, sample_disk)"
  have fr: "tmp_fresh (ss_path (sample_store 4)) sample_disk"
    using tmp_clean_fresh [OF tmp_clean_sample] by (simp add: sample_store_def)
  have ok: "?u = (Inr (), (fst (snd ?u), snd (snd ?u)))" and fault: "fault (snd (snd ?u)) = (\<lambda>_. None)"
    by (simp_all add: update_def persist_def persist_steps_def Let_def sample_serde_def sample_store_def
        sample_disk_def default_State_def)
  from update_then_open [OF ok fr] fault show ?thesis
    by (simp add: sample_store_def sample_serde_def default_State_def)
qed

text \<open>
  C36. An update that fails leaves every file as it was, the temporary one removed; but the new
  state stays in memory, ahead of the disk, until a later update succeeds or the program restarts.
\<close>

theorem failed_update:
  assumes "update serde f (self, d) = (Inl e, (self', d'))" and "tmp_fresh (ss_path self) d"
  shows "files d' = files d \<and> ss_state self' = f (ss_state self)"
  using update_cases [OF assms] by auto

theorem failed_update_witness:
  "files (snd (snd (update sample_serde (\<lambda>s. s\<lparr>st_last_seen_uid := Some 9\<rparr>)
      (sample_store 4, sample_disk\<lparr>fault := (\<lambda>n. if n = 1 then Some (OtherIo ''disk full'') else None)\<rparr>)))) =
    Map.empty"
proof -
  let ?d = "sample_disk\<lparr>fault := (\<lambda>n. if n = 1 then Some (OtherIo ''disk full'') else None)\<rparr>"
  let ?u = "update sample_serde (\<lambda>s. s\<lparr>st_last_seen_uid := Some 9\<rparr>) (sample_store 4, ?d)"
  have fr: "tmp_fresh (ss_path (sample_store 4)) ?d"
    by (simp add: sample_store_def sample_disk_def tmp_fresh_def tmp_path_def path_parent_def drop_slashes_def path_join_def)
  have "?u = (Inl (StateIo (OtherIo ''disk full'')), (fst (snd ?u), snd (snd ?u)))"
    by (simp add: update_def persist_def persist_steps_def Let_def sample_serde_def sample_store_def
        sample_disk_def default_State_def)
  from failed_update [OF this fr] show ?thesis by (simp add: sample_disk_def)
qed

text \<open>
  Opening a store, when no file call fails: a missing file is the empty state of a first run,
  an unreadable one is an error and not an empty state, and no file is changed either way.
\<close>

theorem open_store_result:
  assumes "\<And>n. fault d n = None"
  shows "fst (open_store serde path d) =
           (case files d path of
              None \<Rightarrow> Inr \<lparr>ss_path = path, ss_state = default_State\<rparr>
            | Some b \<Rightarrow> map_err StateJson (map_ok (\<lambda>s. \<lparr>ss_path = path, ss_state = s\<rparr>) (from_slice serde b))) \<and>
         files (snd (open_store serde path d)) = files d"
  using assms
  by (auto simp: open_store_def create_dir_all_def fs_read_def fs_call_def Let_def
      split: option.split sum.split)

theorem open_store_result_witness:
  "fst (open_store sample_serde ''/s/state.json'' sample_disk) =
     Inr \<lparr>ss_path = ''/s/state.json'', ss_state = default_State\<rparr>"
  using open_store_result [of sample_disk sample_serde "''/s/state.json''"]
  by (simp add: sample_disk_def)

end
