(* ===== verification/Sieve_Engine.thy ===== *)
theory Sieve_Engine
  imports Types
begin

text \<open>
  \<open>sieve_engine.rs\<close>: the \<open>SieveEngine\<close> trait and its implementation over \<open>sieve-rs\<close>. The crate
  is a parameter (record \<open>SieveRs\<close>): compiling a script, creating an instance for a message,
  setting the envelope, and running the instance to its next event. The event loop of \<open>evaluate\<close>
  need not end for an arbitrary instance, so it is a partial function: \<open>None\<close> is a loop that
  never returns.
\<close>

datatype SieveError = Compile string | Runtime string

fun display_sieve_error :: "SieveError \<Rightarrow> string" where
  "display_sieve_error (Compile m) = ''compile error: '' @ m"
| "display_sieve_error (Runtime m) = ''runtime error: '' @ m"

text \<open>The trait, over the type of compiled scripts.\<close>

record 's SieveEngine =
  compile :: "string \<Rightarrow> SieveError + 's"
  evaluate :: "'s \<Rightarrow> MessageContext \<Rightarrow> SieveError + SieveAction list"

section \<open>The crate\<close>

datatype Recipient = Address string | OtherRecipient

text \<open>
  The events the loop tells apart. \<open>Function\<close> carries the external function's number and its
  arguments already converted to text; \<open>OtherEvent\<close> is every event the code answers with
  \<open>Input::True\<close> and no action.
\<close>

datatype Event =
    IncludeScript
  | EvKeep "string list"
  | EvDiscard
  | EvFileInto string "string list" bool
  | SendMessage Recipient
  | EvReject string
  | EvFunction u32 "string list"
  | OtherEvent

datatype 's Input = InputScript string 's | InputTrue

datatype Envelope = EnvelopeFrom | EnvelopeTo

record ('i, 's) SieveRs =
  rs_compile :: "string \<Rightarrow> string + 's"
  rs_filter :: "bytes \<Rightarrow> 'i"
  rs_set_envelope :: "Envelope \<Rightarrow> string \<Rightarrow> 'i \<Rightarrow> 'i"
  rs_run :: "'s Input \<Rightarrow> 'i \<Rightarrow> (string + Event) option \<times> 'i"

section \<open>The implementation\<close>

definition compile_impl :: "('i, 's) SieveRs \<Rightarrow> string \<Rightarrow> SieveError + 's" where
  "compile_impl R script = map_err Compile (rs_compile R script)"

text \<open>What the loop pushes for one event.\<close>

fun actions_of :: "Event \<Rightarrow> SieveAction list" where
  "actions_of IncludeScript = []"
| "actions_of (EvKeep flags) = (if flags \<noteq> [] then [SetFlag flags] else []) @ [Keep]"
| "actions_of EvDiscard = [Discard]"
| "actions_of (EvFileInto folder flags create) =
     (if flags \<noteq> [] then [SetFlag flags] else []) @ [FileInto folder False create]"
| "actions_of (SendMessage (Address addr)) = [Redirect [addr]]"
| "actions_of (SendMessage OtherRecipient) = []"
| "actions_of (EvReject reason) = [Reject reason]"
| "actions_of (EvFunction i args) = [Execute (show_word i) args]"
| "actions_of OtherEvent = []"

partial_function (option) event_loop ::
    "('i, 's) SieveRs \<Rightarrow> 's Input \<Rightarrow> 'i \<Rightarrow> SieveAction list \<Rightarrow> (SieveError + SieveAction list) option"
where
  "event_loop R next_input instance actions =
     (case rs_run R next_input instance of
        (None, _) \<Rightarrow> Some (Inr actions)
      | (Some (Inl e), _) \<Rightarrow> Some (Inl (Runtime e))
      | (Some (Inr event), instance') \<Rightarrow> event_loop R InputTrue instance' (actions @ actions_of event))"

text \<open>RFC 5228's implicit keep, then the detection of \<open>:copy\<close>.\<close>

definition implicit_keep :: "SieveAction list \<Rightarrow> SieveAction list" where
  "implicit_keep actions =
     (if \<exists>a \<in> set actions. is_disposition a then actions else actions @ [Keep])"

fun set_copy :: "SieveAction \<Rightarrow> SieveAction" where
  "set_copy (FileInto mailbox copy create) = FileInto mailbox True create"
| "set_copy a = a"

definition detect_copy :: "SieveAction list \<Rightarrow> SieveAction list" where
  "detect_copy actions =
     (if (\<exists>a \<in> set actions. is_FileInto a) \<and> Keep \<in> set actions
      then filter (\<lambda>a. a \<noteq> Keep) (map set_copy actions)
      else actions)"

definition finish :: "SieveAction list \<Rightarrow> SieveAction list" where
  "finish actions = detect_copy (implicit_keep actions)"

definition start_instance :: "('i, 's) SieveRs \<Rightarrow> MessageContext \<Rightarrow> bytes \<Rightarrow> 'i" where
  "start_instance R context raw =
     (let i0 = rs_filter R raw;
          i1 = (case msg_envelope_from context of
                  None \<Rightarrow> i0 | Some from \<Rightarrow> rs_set_envelope R EnvelopeFrom from i0)
      in foldl (\<lambda>i to. rs_set_envelope R EnvelopeTo to i) i1 (msg_envelope_to context))"

definition evaluate_impl ::
    "('i, 's) SieveRs \<Rightarrow> 's \<Rightarrow> MessageContext \<Rightarrow> (SieveError + SieveAction list) option" where
  "evaluate_impl R script context =
     (case msg_raw context of
        None \<Rightarrow> Some (Inl (Runtime ''MessageContext.raw is required''))
      | Some raw \<Rightarrow>
          (case event_loop R (InputScript ''main'' script) (start_instance R context raw) [] of
             None \<Rightarrow> None
           | Some (Inl e) \<Rightarrow> Some (Inl e)
           | Some (Inr actions) \<Rightarrow> Some (Inr (finish actions))))"

text \<open>
  The trait object of the implementation. A trait method of the model is total; an evaluation
  that never returns is shown as a runtime error here, and the properties that rest on the
  actions of an evaluation ask for one that returned actions.
\<close>

definition sieve_engine_impl :: "('i, 's) SieveRs \<Rightarrow> 's SieveEngine" where
  "sieve_engine_impl R =
     \<lparr>compile = compile_impl R,
      evaluate = (\<lambda>script context.
        case evaluate_impl R script context of
          None \<Rightarrow> Inl (Runtime ''evaluation does not return'')
        | Some r \<Rightarrow> r)\<rparr>"

section \<open>The run of an instance, as a relation\<close>

text \<open>
  \<open>emits R inp i evs err\<close>: run from input \<open>inp\<close>, the instance emits the events \<open>evs\<close> and then ends
  (\<open>err = None\<close>) or fails.
\<close>

inductive emits :: "('i, 's) SieveRs \<Rightarrow> 's Input \<Rightarrow> 'i \<Rightarrow> Event list \<Rightarrow> string option \<Rightarrow> bool"
  for R :: "('i, 's) SieveRs" where
  ends: "rs_run R inp i = (None, i') \<Longrightarrow> emits R inp i [] None"
| fails: "rs_run R inp i = (Some (Inl e), i') \<Longrightarrow> emits R inp i [] (Some e)"
| emit: "rs_run R inp i = (Some (Inr ev), i') \<Longrightarrow> emits R InputTrue i' evs err \<Longrightarrow>
     emits R inp i (ev # evs) err"

lemma event_loop_unfold:
  "rs_run R inp i = (None, i') \<Longrightarrow> event_loop R inp i acts = Some (Inr acts)"
  "rs_run R inp i = (Some (Inl e), i') \<Longrightarrow> event_loop R inp i acts = Some (Inl (Runtime e))"
  "rs_run R inp i = (Some (Inr ev), i') \<Longrightarrow>
     event_loop R inp i acts = event_loop R InputTrue i' (acts @ actions_of ev)"
  by (subst event_loop.simps, simp)+

lemma event_loop_emits:
  "emits R inp i evs err \<Longrightarrow>
     event_loop R inp i acts =
       Some (case err of None \<Rightarrow> Inr (acts @ concat (map actions_of evs)) | Some e \<Rightarrow> Inl (Runtime e))"
  by (induction arbitrary: acts rule: emits.induct)
     (simp_all add: event_loop_unfold split: option.split)

lemma event_loop_Some:
  assumes "event_loop R inp i acts = Some r"
  shows "\<exists>evs err. emits R inp i evs err"
proof (rule event_loop.raw_induct [where P = "\<lambda>R inp i acts r. \<exists>evs err. emits R inp i evs err", OF _ assms])
  fix loop R inp i acts r
  assume IH: "\<And>R inp i acts r. loop R inp i acts = Some r \<Longrightarrow> \<exists>evs err. emits R inp i evs err"
    and eq: "(case rs_run R inp i of
        (None, _) \<Rightarrow> Some (Inr acts)
      | (Some (Inl e), _) \<Rightarrow> Some (Inl (Runtime e))
      | (Some (Inr event), i') \<Rightarrow> loop R InputTrue i' (acts @ actions_of event)) = Some r"
  obtain o' i' where run: "rs_run R inp i = (o', i')" by fastforce
  consider "o' = None" | e where "o' = Some (Inl e)" | ev where "o' = Some (Inr ev)"
    by (cases o') (auto, metis sumE)
  then show "\<exists>evs err. emits R inp i evs err"
  proof cases
    case 3
    with eq run have "loop R InputTrue i' (acts @ actions_of ev) = Some r" by simp
    from IH [OF this] run 3 show ?thesis by (blast intro: emits.emit)
  qed (use run in \<open>blast intro: emits.intros\<close>)+
qed

lemma evaluate_impl_emits:
  assumes "msg_raw context = Some raw"
    and "emits R (InputScript ''main'' script) (start_instance R context raw) evs err"
  shows "evaluate_impl R script context =
           Some (case err of None \<Rightarrow> Inr (finish (concat (map actions_of evs)))
                           | Some e \<Rightarrow> Inl (Runtime e))"
  using assms event_loop_emits [OF assms(2), of "[]"]
  by (auto simp: evaluate_impl_def split: option.split)

lemma evaluate_impl_Inr:
  assumes "evaluate_impl R script context = Some (Inr acts)"
  shows "\<exists>raw evs. msg_raw context = Some raw \<and>
           emits R (InputScript ''main'' script) (start_instance R context raw) evs None \<and>
           acts = finish (concat (map actions_of evs))"
proof -
  from assms obtain raw acts0 where raw: "msg_raw context = Some raw"
    and loop: "event_loop R (InputScript ''main'' script) (start_instance R context raw) [] = Some (Inr acts0)"
    and acts: "acts = finish acts0"
    by (auto simp: evaluate_impl_def split: option.splits sum.splits)
  from event_loop_Some [OF loop] obtain evs err
    where em: "emits R (InputScript ''main'' script) (start_instance R context raw) evs err" by blast
  from event_loop_emits [OF em, of "[]"] loop
  have "err = None" and "acts0 = concat (map actions_of evs)" by (auto split: option.splits)
  with raw em acts show ?thesis by blast
qed

lemma evaluate_impl_Inl:
  assumes "evaluate_impl R script context = Some (Inl e)"
  shows "msg_raw context = None \<and> e = Runtime ''MessageContext.raw is required'' \<or>
      (\<exists>raw evs m. msg_raw context = Some raw \<and>
        emits R (InputScript ''main'' script) (start_instance R context raw) evs (Some m) \<and> e = Runtime m)"
proof (cases "msg_raw context")
  case None
  with assms show ?thesis by (simp add: evaluate_impl_def)
next
  case (Some raw)
  with assms have loop:
    "event_loop R (InputScript ''main'' script) (start_instance R context raw) [] = Some (Inl e)"
    by (auto simp: evaluate_impl_def split: option.splits sum.splits)
  from event_loop_Some [OF loop] obtain evs err
    where em: "emits R (InputScript ''main'' script) (start_instance R context raw) evs err" by blast
  from event_loop_emits [OF em, of "[]"] loop obtain m where "err = Some m" and "e = Runtime m"
    by (auto split: option.splits)
  with Some em show ?thesis by blast
qed

section \<open>The contract of the action list\<close>

lemma is_FileInto_set_copy [simp]: "is_FileInto (set_copy a) = is_FileInto a"
  and is_disposition_set_copy [simp]: "is_disposition (set_copy a) = is_disposition a"
  and set_copy_Keep [simp]: "set_copy a = Keep \<longleftrightarrow> a = Keep"
  by (cases a; simp)+

lemma is_FileInto_iff: "is_FileInto a \<longleftrightarrow> (\<exists>m c cr. a = FileInto m c cr)"
  by (cases a) simp_all

lemma FileInto_disposition: "is_FileInto a \<Longrightarrow> is_disposition a"
  by (cases a) simp_all

lemma finish_disposition: "\<exists>a \<in> set (finish acts). is_disposition a"
proof -
  have "\<exists>a \<in> set (implicit_keep acts). is_disposition a"
    by (auto simp: implicit_keep_def intro: bexI [of _ Keep])
  then show ?thesis
    unfolding finish_def detect_copy_def
    by (auto 0 4 intro: FileInto_disposition rev_bexI simp: is_FileInto_iff)
qed

lemma finish_no_Keep_with_FileInto:
  "a \<in> set (finish acts) \<Longrightarrow> is_FileInto a \<Longrightarrow> Keep \<notin> set (finish acts)"
  by (auto simp: finish_def detect_copy_def split: if_splits)

text \<open>
  What the executor and the processor rely on: every list of actions an engine returns says what
  becomes of the message, and it never asks to keep it next to filing it.
\<close>

locale sieve_engine =
  fixes E :: "'s SieveEngine"
  assumes disposes: "evaluate E s c = Inr acts \<Longrightarrow> \<exists>a \<in> set acts. is_disposition a"
    and no_keep_and_file:
      "evaluate E s c = Inr acts \<Longrightarrow> a \<in> set acts \<Longrightarrow> is_FileInto a \<Longrightarrow> Keep \<notin> set acts"
begin

lemma never_empty: "evaluate E s c \<noteq> Inr []"
  using disposes [of s c "[]"] by auto

lemma keep_leaves_no_filing:
  "evaluate E s c = Inr acts \<Longrightarrow> Keep \<in> set acts \<Longrightarrow> \<forall>a \<in> set acts. \<not> is_FileInto a"
  using no_keep_and_file by blast

end

lemma evaluate_sieve_engine_impl:
  "evaluate (sieve_engine_impl R) s c = Inr acts \<longleftrightarrow> evaluate_impl R s c = Some (Inr acts)"
  by (simp add: sieve_engine_impl_def split: option.split)

interpretation sieve_rs: sieve_engine "sieve_engine_impl R"
proof
  show "\<exists>a \<in> set acts. is_disposition a" if "evaluate (sieve_engine_impl R) s c = Inr acts" for s c acts
    using that finish_disposition by (auto simp: evaluate_sieve_engine_impl dest: evaluate_impl_Inr)
  show "Keep \<notin> set acts"
    if "evaluate (sieve_engine_impl R) s c = Inr acts" "a \<in> set acts" "is_FileInto a" for s c acts a
    using that finish_no_Keep_with_FileInto
    by (auto simp: evaluate_sieve_engine_impl dest: evaluate_impl_Inr)
qed

section \<open>Events and actions\<close>

fun keep_event :: "Event \<Rightarrow> bool" where
  "keep_event (EvKeep _) = True"
| "keep_event _ = False"

fun file_event :: "Event \<Rightarrow> bool" where
  "file_event (EvFileInto _ _ _) = True"
| "file_event _ = False"

fun disposition_event :: "Event \<Rightarrow> bool" where
  "disposition_event (EvKeep _) = True"
| "disposition_event EvDiscard = True"
| "disposition_event (EvFileInto _ _ _) = True"
| "disposition_event (SendMessage (Address _)) = True"
| "disposition_event (EvReject _) = True"
| "disposition_event _ = False"

abbreviation acts_of :: "Event list \<Rightarrow> SieveAction list" where
  "acts_of evs \<equiv> concat (map actions_of evs)"

lemma Keep_actions_of: "Keep \<in> set (actions_of ev) \<longleftrightarrow> keep_event ev"
  by (cases ev rule: actions_of.cases) simp_all

lemma FileInto_actions_of:
  "FileInto m c cr \<in> set (actions_of ev) \<longleftrightarrow> \<not> c \<and> (\<exists>flags. ev = EvFileInto m flags cr)"
  by (cases ev rule: actions_of.cases) auto

lemma disposition_actions_of: "(\<exists>a \<in> set (actions_of ev). is_disposition a) \<longleftrightarrow> disposition_event ev"
  by (cases ev rule: actions_of.cases) auto

lemma acts_of_Keep: "Keep \<in> set (acts_of evs) \<longleftrightarrow> (\<exists>ev \<in> set evs. keep_event ev)"
  by (auto simp: Keep_actions_of)

lemma acts_of_FileInto:
  "FileInto m c cr \<in> set (acts_of evs) \<longleftrightarrow> \<not> c \<and> (\<exists>flags. EvFileInto m flags cr \<in> set evs)"
  by (auto simp: FileInto_actions_of)

lemma acts_of_file: "(\<exists>a \<in> set (acts_of evs). is_FileInto a) \<longleftrightarrow> (\<exists>ev \<in> set evs. file_event ev)"
proof -
  have "(\<exists>a \<in> set (actions_of ev). is_FileInto a) \<longleftrightarrow> file_event ev" for ev
    by (cases ev rule: actions_of.cases) auto
  then show ?thesis by simp
qed

lemma acts_of_disposition:
  "(\<exists>a \<in> set (acts_of evs). is_disposition a) \<longleftrightarrow> (\<exists>ev \<in> set evs. disposition_event ev)"
  using disposition_actions_of by auto

lemma keep_disposition: "keep_event ev \<Longrightarrow> disposition_event ev"
  and file_disposition: "file_event ev \<Longrightarrow> disposition_event ev"
  by (cases ev; simp)+

lemma FileInto_set_copy:
  "FileInto m c cr \<in> set_copy ` A \<longleftrightarrow> c \<and> (\<exists>c'. FileInto m c' cr \<in> A)"
proof -
  have "FileInto m c cr = set_copy a \<longleftrightarrow> c \<and> (\<exists>c'. a = FileInto m c' cr)" for a
    by (cases a) auto
  then show ?thesis by (auto simp: image_iff)
qed

lemma implicit_keep_Keep:
  "Keep \<in> set (implicit_keep (acts_of evs)) \<longleftrightarrow>
     (\<exists>ev \<in> set evs. keep_event ev) \<or> \<not> (\<exists>ev \<in> set evs. disposition_event ev)"
  unfolding implicit_keep_def acts_of_disposition
  using acts_of_Keep [of evs] keep_disposition by auto

lemma implicit_keep_FileInto:
  "FileInto m c cr \<in> set (implicit_keep acts) \<longleftrightarrow> FileInto m c cr \<in> set acts"
  by (simp add: implicit_keep_def)

lemma finish_FileInto:
  "FileInto m c cr \<in> set (finish (acts_of evs)) \<longleftrightarrow>
     (\<exists>flags. EvFileInto m flags cr \<in> set evs) \<and> c = (\<exists>ev \<in> set evs. keep_event ev)"
proof (cases "\<exists>ev \<in> set evs. file_event ev")
  case True
  then have kept: "Keep \<in> set (implicit_keep (acts_of evs)) \<longleftrightarrow> (\<exists>ev \<in> set evs. keep_event ev)"
    using implicit_keep_Keep [of evs] file_disposition by blast
  have "\<exists>a \<in> set (implicit_keep (acts_of evs)). is_FileInto a"
    using True acts_of_file [of evs] by (auto simp: implicit_keep_def)
  then have "finish (acts_of evs) =
      (if \<exists>ev \<in> set evs. keep_event ev
       then filter (\<lambda>a. a \<noteq> Keep) (map set_copy (implicit_keep (acts_of evs)))
       else implicit_keep (acts_of evs))"
    using kept by (simp add: finish_def detect_copy_def)
  then show ?thesis
    using acts_of_FileInto [of m _ cr evs]
    by (auto simp: FileInto_set_copy implicit_keep_FileInto simp del: set_concat)
next
  case False
  then have "\<not> (\<exists>a \<in> set (implicit_keep (acts_of evs)). is_FileInto a)"
    using acts_of_file [of evs] by (auto simp: implicit_keep_def)
  then have "finish (acts_of evs) = implicit_keep (acts_of evs)"
    by (auto simp: finish_def detect_copy_def)
  moreover have "\<nexists>flags. EvFileInto m flags cr \<in> set evs" using False by force
  ultimately show ?thesis
    using acts_of_FileInto [of m c cr evs] by (auto simp: implicit_keep_FileInto simp del: set_concat)
qed

lemma finish_Keep:
  "Keep \<in> set (finish (acts_of evs)) \<longleftrightarrow>
     \<not> (\<exists>ev \<in> set evs. file_event ev) \<and>
     ((\<exists>ev \<in> set evs. keep_event ev) \<or> \<not> (\<exists>ev \<in> set evs. disposition_event ev))"
proof -
  have "(\<exists>a \<in> set (implicit_keep (acts_of evs)). is_FileInto a) \<longleftrightarrow> (\<exists>ev \<in> set evs. file_event ev)"
    using acts_of_file [of evs] by (auto simp: implicit_keep_def)
  then show ?thesis
    using implicit_keep_Keep [of evs] file_disposition
    by (auto simp: finish_def detect_copy_def)
qed

text \<open>
  For the evaluation of the properties: an instance that is a list of events and emits one per
  run, made for any message to file and keep it, and a message.
\<close>

definition script_rs :: "(Event list, Event list) SieveRs" where
  "script_rs =
     \<lparr>rs_compile = (\<lambda>_. Inl ''no compiler''), rs_filter = (\<lambda>_. [EvFileInto ''A'' [] False, EvKeep []]),
      rs_set_envelope = (\<lambda>_ _ i. i),
      rs_run = (\<lambda>inp i. case i of [] \<Rightarrow> (None, []) | ev # evs \<Rightarrow> (Some (Inr ev), evs))\<rparr>"

definition script_msg :: MessageContext where
  "script_msg =
     \<lparr>msg_uid = 5, msg_mailbox = ''INBOX'', msg_headers = Map.empty, msg_envelope_from = None,
      msg_envelope_to = [], msg_raw = Some ''Subject: x'', msg_flags = [], msg_size = 10\<rparr>"

lemma script_rs_emits: "emits script_rs inp evs evs None"
  by (induction evs arbitrary: inp)
     (auto simp: script_rs_def intro: emits.ends [where i' = "[]"] emits.emit)

lemma script_rs_evaluates:
  "emits script_rs (InputScript ''main'' []) (start_instance script_rs script_msg ''Subject: x'')
     [EvFileInto ''A'' [] False, EvKeep []] None"
  "evaluate_impl script_rs [] script_msg = Some (Inr [FileInto ''A'' True False])"
proof -
  show em: "emits script_rs (InputScript ''main'' []) (start_instance script_rs script_msg ''Subject: x'')
      [EvFileInto ''A'' [] False, EvKeep []] None"
    using script_rs_emits by (simp add: start_instance_def script_rs_def script_msg_def)
  show "evaluate_impl script_rs [] script_msg = Some (Inr [FileInto ''A'' True False])"
    using evaluate_impl_emits [OF _ em]
    by (simp add: script_msg_def finish_def implicit_keep_def detect_copy_def)
qed

section \<open>Properties\<close>

text \<open>
  C8. What an evaluation returns is determined by the events the instance emits when it is fed
  the compiled script and then only \<open>True\<close>: it returns actions exactly when the events end, and
  they are the actions of the events, in order, completed by the implicit keep and the detection
  of \<open>:copy\<close>; it fails exactly when the message has no body or the instance fails.
\<close>

theorem evaluate_by_events:
  "(evaluate_impl R script ctx = Some (Inr acts)) =
     (\<exists>raw evs. msg_raw ctx = Some raw \<and>
        emits R (InputScript ''main'' script) (start_instance R ctx raw) evs None \<and>
        acts = finish (concat (map actions_of evs))) \<and>
   (evaluate_impl R script ctx = Some (Inl e)) =
     (msg_raw ctx = None \<and> e = Runtime ''MessageContext.raw is required'' \<or>
      (\<exists>raw evs m. msg_raw ctx = Some raw \<and>
        emits R (InputScript ''main'' script) (start_instance R ctx raw) evs (Some m) \<and> e = Runtime m))"
proof (intro conjI iffI)
  assume "evaluate_impl R script ctx = Some (Inr acts)"
  then show "\<exists>raw evs. msg_raw ctx = Some raw \<and>
        emits R (InputScript ''main'' script) (start_instance R ctx raw) evs None \<and>
        acts = finish (concat (map actions_of evs))"
    by (rule evaluate_impl_Inr)
next
  assume "evaluate_impl R script ctx = Some (Inl e)"
  then show "msg_raw ctx = None \<and> e = Runtime ''MessageContext.raw is required'' \<or>
      (\<exists>raw evs m. msg_raw ctx = Some raw \<and>
        emits R (InputScript ''main'' script) (start_instance R ctx raw) evs (Some m) \<and> e = Runtime m)"
    by (rule evaluate_impl_Inl)
qed (auto dest: evaluate_impl_emits, auto simp: evaluate_impl_def)

text \<open>
  Every list of actions the engine returns disposes of the message, and it never asks to keep
  the message next to filing it.
\<close>

theorem evaluation_disposes:
  assumes "evaluate (sieve_engine_impl R) script ctx = Inr acts"
  shows "(\<exists>a \<in> set acts. is_disposition a) \<and> (Keep \<in> set acts \<longrightarrow> (\<forall>a \<in> set acts. \<not> is_FileInto a))"
  using sieve_rs.disposes [OF assms] sieve_rs.keep_leaves_no_filing [OF assms] by blast

theorem evaluation_disposes_witness: "\<exists>a \<in> set [FileInto ''A'' True False]. is_disposition a"
  using evaluation_disposes [of script_rs "[]" script_msg] script_rs_evaluates(2)
  by (auto simp: evaluate_sieve_engine_impl)

text \<open>
  C24. The filings of an evaluation are those of the events, and all of them are copies if the
  script kept the message as well, none if it did not; the message is kept exactly if nothing
  files it and it was kept explicitly or nothing disposed of it.
\<close>

theorem filing_and_keeping:
  assumes "evaluate_impl R script ctx = Some (Inr acts)"
    and "msg_raw ctx = Some raw"
    and "emits R (InputScript ''main'' script) (start_instance R ctx raw) evs err"
  shows "(FileInto m c cr \<in> set acts) =
           ((\<exists>flags. EvFileInto m flags cr \<in> set evs) \<and> c = (\<exists>ev \<in> set evs. keep_event ev)) \<and>
         (Keep \<in> set acts) =
           (\<not> (\<exists>ev \<in> set evs. file_event ev) \<and>
            ((\<exists>ev \<in> set evs. keep_event ev) \<or> \<not> (\<exists>ev \<in> set evs. disposition_event ev)))"
proof -
  have "acts = finish (acts_of evs)"
    using evaluate_impl_emits [OF assms(2,3)] assms(1) by (auto split: option.splits)
  then show ?thesis using finish_FileInto finish_Keep by blast
qed

theorem filing_and_keeping_witness:
  "FileInto ''A'' True False \<in> set [FileInto ''A'' True False] \<and> Keep \<notin> set [FileInto ''A'' True False]"
  using filing_and_keeping [OF script_rs_evaluates(2) _ script_rs_evaluates(1)]
  by (simp add: script_msg_def)

end
