(* ===== verification/Samples.thy ===== *)
theory Samples
  imports Imap_Client State_Store Sieve_Engine
begin

text \<open>
  Small concrete inputs on which the properties of the other theories are evaluated: a message, an
  engine that keeps every message, and a fake client with mail. Nothing here models code of the
  program.
\<close>

definition sample_msg :: "u32 \<Rightarrow> MessageContext" where
  "sample_msg uid =
     \<lparr>msg_uid = uid, msg_mailbox = ''INBOX'', msg_headers = Map.empty,
      msg_envelope_from = Some ''a@example.org'', msg_envelope_to = [], msg_raw = Some ''Subject: x'',
      msg_flags = [], msg_size = 10\<rparr>"

definition sample_engine :: "string SieveEngine" where
  "sample_engine = \<lparr>compile = Inr, evaluate = (\<lambda>_ _. Inr [Keep])\<rparr>"

definition sample_status :: MailboxStatus where
  "sample_status = \<lparr>mb_uidvalidity = 7, mb_uidnext = 5, mb_exists = 4, mb_highestmodseq = Some 9\<rparr>"

definition sample_fake :: "MessageContext list \<Rightarrow> FakeImap" where
  "sample_fake msgs = new_FakeImap\<lparr>fk_fetch_responses := msgs, fk_status := sample_status\<rparr>"

lemmas sample_defs = sample_msg_def sample_serde_def sample_disk_def sample_store_def
  sample_engine_def sample_status_def sample_fake_def

end
