(* ===== verification/Smtp_Sender.thy ===== *)
theory Smtp_Sender
  imports Types
begin

text \<open>
  \<open>smtp_sender.rs\<close>: the \<open>MailSender\<close> trait as a record of its method over the outside world, the
  recording \<open>FakeSender\<close>, and \<open>LettreMailSender\<close>. The \<open>lettre\<close> crate is a parameter: how it
  parses an address, how it builds an envelope, and its transport.
\<close>

record OutgoingMail =
  om_envelope_from :: string
  om_envelope_to :: "string list"
  om_raw :: bytes

record 'w MailSender =
  send :: "OutgoingMail \<Rightarrow> ('w, CoreError, unit) io"

section \<open>The recording fake\<close>

type_synonym FakeSender = "OutgoingMail list"

definition new_FakeSender :: FakeSender where
  "new_FakeSender = []"

definition fake_sent :: "FakeSender \<Rightarrow> OutgoingMail list" where
  "fake_sent self = self"

definition fake_sender :: "FakeSender MailSender" where
  "fake_sender = \<lparr>send = (\<lambda>mail sent. (Inr (), sent @ [mail]))\<rparr>"

section \<open>The lettre sender\<close>

text \<open>
  \<open>'a\<close> is lettre's address type and \<open>'v\<close> its envelope type; \<open>relay\<close> and \<open>starttls_relay\<close> build
  a transport of type \<open>'t\<close> for a host, and \<open>configure\<close> sets its port and credentials.
\<close>

record ('w, 't, 'a, 'v) Lettre =
  parse_address :: "string \<Rightarrow> string + 'a"
  new_envelope :: "'a option \<Rightarrow> 'a list \<Rightarrow> string + 'v"
  send_raw :: "'t \<Rightarrow> 'v \<Rightarrow> bytes \<Rightarrow> ('w, string, unit) io"
  relay :: "string \<Rightarrow> string + 't"
  starttls_relay :: "string \<Rightarrow> string + 't"
  configure :: "'t \<Rightarrow> u16 \<Rightarrow> string \<Rightarrow> string \<Rightarrow> 't"

definition new_LettreMailSender ::
    "('w, 't, 'a, 'v) Lettre \<Rightarrow> string \<Rightarrow> u16 \<Rightarrow> string \<Rightarrow> string \<Rightarrow> bool \<Rightarrow> CoreError + 't" where
  "new_LettreMailSender L host port username password starttls =
     (case (if starttls then map_err Smtp (starttls_relay L host) else map_err Smtp (relay L host)) of
        Inl e \<Rightarrow> Inl e
      | Inr builder \<Rightarrow> Inr (configure L builder port username password))"

text \<open>Collecting into \<open>Result<Vec<_>, _>\<close>: the first error wins.\<close>

fun collect_results :: "('e + 'a) list \<Rightarrow> 'e + 'a list" where
  "collect_results [] = Inr []"
| "collect_results (Inl e # rs) = Inl e"
| "collect_results (Inr a # rs) = (case collect_results rs of Inl e \<Rightarrow> Inl e | Inr as \<Rightarrow> Inr (a # as))"

definition lettre_envelope :: "('w, 't, 'a, 'v) Lettre \<Rightarrow> OutgoingMail \<Rightarrow> CoreError + 'v" where
  "lettre_envelope L mail =
     (case (if om_envelope_from mail = [] then Inr None
            else (case map_err Smtp (parse_address L (om_envelope_from mail)) of
                    Inl e \<Rightarrow> Inl e | Inr a \<Rightarrow> Inr (Some a))) of
        Inl e \<Rightarrow> Inl e
      | Inr from \<Rightarrow>
     case collect_results (map (\<lambda>s. map_err Smtp (parse_address L s)) (om_envelope_to mail)) of
        Inl e \<Rightarrow> Inl e
      | Inr to \<Rightarrow> map_err Smtp (new_envelope L from to))"

definition lettre_sender :: "('w, 't, 'a, 'v) Lettre \<Rightarrow> 't \<Rightarrow> 'w MailSender" where
  "lettre_sender L transport =
     \<lparr>send = (\<lambda>mail w.
        case lettre_envelope L mail of
          Inl e \<Rightarrow> (Inl e, w)
        | Inr envelope \<Rightarrow>
            (case send_raw L transport envelope (om_raw mail) w of
               (r, w') \<Rightarrow> (map_err Smtp r, w')))\<rparr>"

section \<open>Lemmas\<close>

lemma collect_results_map_Inr [simp]: "collect_results (map Inr as) = Inr as"
  by (induction as) simp_all

lemma collect_results_Inl: "collect_results rs = Inl e \<Longrightarrow> Inl e \<in> set rs"
  by (induction rs rule: collect_results.induct) (auto split: sum.splits)

text \<open>
  A sender that reports a failure has an error of the \<open>Smtp\<close> kind, and mail that no envelope can
  be built for never reaches the transport.
\<close>

lemma lettre_envelope_Err: "lettre_envelope L mail = Inl e \<Longrightarrow> \<exists>m. e = Smtp m"
  unfolding lettre_envelope_def
  by (auto simp: map_err_eq_Inl split: sum.splits if_splits dest!: collect_results_Inl)

lemma lettre_no_envelope:
  "lettre_envelope L mail = Inl e \<Longrightarrow> send (lettre_sender L t) mail w = (Inl e, w)"
  by (simp add: lettre_sender_def)

text \<open>
  What the executor relies on: a sender keeps a list of the mail it has handed over; success
  appends the mail, failure appends nothing.
\<close>

locale mail_sender =
  fixes S :: "'w MailSender" and sent :: "'w \<Rightarrow> OutgoingMail list"
  assumes send_Ok: "send S m w = (Inr (), w') \<Longrightarrow> sent w' = sent w @ [m]"
    and send_Err: "send S m w = (Inl e, w') \<Longrightarrow> sent w' = sent w"
begin

lemma sent_grows: "\<exists>ms. sent (snd (send S m w)) = sent w @ ms \<and> set ms \<subseteq> {m}"
proof (cases "send S m w")
  case (Pair r w')
  then show ?thesis
    by (cases r) (auto dest: send_Ok send_Err)
qed

lemma sent_Ok_iff: "send S m w = (r, w') \<Longrightarrow> r = Inr () \<longleftrightarrow> sent w' = sent w @ [m]"
  by (cases r) (auto dest: send_Ok send_Err)

end

interpretation fake_mail: mail_sender fake_sender "\<lambda>sent. sent"
  by unfold_locales (auto simp: fake_sender_def)

lemma collect_results_Inr:
  "collect_results rs = Inr as \<longleftrightarrow> rs = map Inr as"
proof
  show "collect_results rs = Inr as \<Longrightarrow> rs = map Inr as"
    by (induction rs arbitrary: as rule: collect_results.induct) (auto split: sum.splits)
qed simp

lemma map_Inr_iff: "map f xs = map Inr as \<longleftrightarrow> list_all2 (\<lambda>x a. f x = Inr a) xs as"
  by (simp add: list_all2_conv_all_nth list_eq_iff_nth_eq) (auto simp: list_eq_iff_nth_eq)

text \<open>For the evaluation of properties: a relay that takes everything with an \<open>@\<close> in it.\<close>

definition sample_lettre :: "('w, unit, string, unit) Lettre" where
  "sample_lettre =
     \<lparr>parse_address = (\<lambda>s. if CHR ''@'' \<in> set s then Inr s else Inl ''missing domain or user''),
      new_envelope = (\<lambda>_ _. Inr ()), send_raw = (\<lambda>_ _ _ w. (Inr (), w)), relay = (\<lambda>_. Inr ()),
      starttls_relay = (\<lambda>_. Inr ()), configure = (\<lambda>t _ _ _. t)\<rparr>"

section \<open>Properties\<close>

text \<open>
  Mail is handed to the relay only with a complete envelope: the sender must be the empty
  string, which is the null reverse-path, or parse; every recipient must parse; and \<open>lettre\<close> must
  accept the envelope. Then the transport gets that envelope, with the recipients in order, and
  the raw bytes as they are; its error is reported as an SMTP error. Otherwise sending fails with
  an SMTP error and nothing is sent.
\<close>

theorem lettre_send:
  "(\<exists>sender rcpts v. (if om_envelope_from mail = [] then sender = None
                else \<exists>a. parse_address L (om_envelope_from mail) = Inr a \<and> sender = Some a) \<and>
       list_all2 (\<lambda>s a. parse_address L s = Inr a) (om_envelope_to mail) rcpts \<and>
       new_envelope L sender rcpts = Inr v \<and>
       send (lettre_sender L t) mail w =
         (map_err Smtp (fst (send_raw L t v (om_raw mail) w)), snd (send_raw L t v (om_raw mail) w))) \<or>
   (\<exists>m. send (lettre_sender L t) mail w = (Inl (Smtp m), w))"
proof (cases "lettre_envelope L mail")
  case (Inl e)
  with lettre_envelope_Err [OF this] lettre_no_envelope [OF this] show ?thesis by blast
next
  case (Inr v)
  then obtain sender rcpts where
    "if om_envelope_from mail = [] then sender = None
     else \<exists>a. parse_address L (om_envelope_from mail) = Inr a \<and> sender = Some a"
    and "map (\<lambda>s. map_err Smtp (parse_address L s)) (om_envelope_to mail) = map Inr rcpts"
    and "new_envelope L sender rcpts = Inr v"
    by (auto simp: lettre_envelope_def collect_results_Inr split: sum.splits if_splits)
  moreover have "send (lettre_sender L t) mail w =
      (map_err Smtp (fst (send_raw L t v (om_raw mail) w)), snd (send_raw L t v (om_raw mail) w))"
    using Inr by (simp add: lettre_sender_def split: prod.split)
  ultimately show ?thesis
    unfolding map_Inr_iff map_err_eq_Inr by blast
qed

end
