(* ===== verification/Action_Executor.thy ===== *)
theory Action_Executor
  imports Samples Smtp_Sender
begin

text \<open>
  \<open>action_executor.rs\<close>: the executor that turns the actions of one message into IMAP commands
  and outgoing mail. The IMAP client and the mail sender act on the same outside world \<open>'w\<close>.
  The clock and the UUID generator, which only the rejection notice uses, are the field
  \<open>ae_stamp\<close>: the formatted date and the UUID.
\<close>

record 'w ActionExecutor =
  ae_imap :: "'w ImapClient"
  ae_smtp :: "'w MailSender option"
  ae_caps :: Capabilities
  ae_source_mailbox :: string
  ae_stamp :: "'w \<Rightarrow> (string \<times> string) \<times> 'w"

section \<open>The rejection notice\<close>

definition safe_reason :: "string \<Rightarrow> string" where
  "safe_reason reason = replace_str [LF] '' '' (replace_str CRLF '' '' reason)"

definition reject_body :: "string \<Rightarrow> string \<Rightarrow> string \<Rightarrow> string \<Rightarrow> string" where
  "reject_body to date msg_id reason =
     ''From: <>'' @ CRLF @ ''To: '' @ to @ CRLF @ ''Date: '' @ date @ CRLF @
     ''Message-ID: '' @ msg_id @ CRLF @ ''MIME-Version: 1.0'' @ CRLF @
     ''Subject: Mail rejected'' @ CRLF @
     ''Content-Type: text/plain; charset=utf-8'' @ CRLF @ CRLF @ safe_reason reason @ CRLF"

definition reject_msg_id :: "string \<Rightarrow> string" where
  "reject_msg_id uuid = ''<reject-'' @ uuid @ ''@imap-sieve>''"

section \<open>The executor\<close>

text \<open>First loop: flag and execute actions. \<open>execute\<close> actions are only logged.\<close>

fun flag_action :: "'w ActionExecutor \<Rightarrow> MessageContext \<Rightarrow> SieveAction \<Rightarrow> ('w, CoreError, unit) io" where
  "flag_action self ctx (AddFlag flags) = uid_store_flags (ae_imap self) (msg_uid ctx) Add flags"
| "flag_action self ctx (RemoveFlag flags) = uid_store_flags (ae_imap self) (msg_uid ctx) Remove flags"
| "flag_action self ctx (SetFlag flags) = uid_store_flags (ae_imap self) (msg_uid ctx) Set flags"
| "flag_action self ctx (Execute name args) = ret_io ()"
| "flag_action self ctx _ = ret_io ()"

fun flag_loop :: "'w ActionExecutor \<Rightarrow> MessageContext \<Rightarrow> SieveAction list \<Rightarrow> ('w, CoreError, unit) io" where
  "flag_loop self ctx [] = ret_io ()"
| "flag_loop self ctx (a # as) = bind_io (flag_action self ctx a) (\<lambda>_. flag_loop self ctx as)"

text \<open>Second loop: dispositions. The result is the variable \<open>discarded\<close>.\<close>

fun dispose_action ::
    "'w ActionExecutor \<Rightarrow> MessageContext \<Rightarrow> SieveAction \<Rightarrow> bool \<Rightarrow> ('w, CoreError, bool) io" where
  "dispose_action self ctx (FileInto mailbox copy create) discarded =
     bind_io (if create then ignore_io (uid_create_mailbox (ae_imap self) mailbox) else ret_io ()) (\<lambda>_.
     bind_io (if copy then uid_copy (ae_imap self) (msg_uid ctx) mailbox
              else move_with_fallback (ae_imap self) (ae_caps self) (msg_uid ctx) mailbox) (\<lambda>_.
     ret_io discarded))"
| "dispose_action self ctx Discard discarded = ret_io True"
| "dispose_action self ctx (Redirect addresses) discarded =
     bind_io (ok_or (Smtp ''redirect action requires SMTP configuration'') (ae_smtp self)) (\<lambda>smtp.
     bind_io (ok_or (Smtp ''redirect requires raw message body'') (msg_raw ctx)) (\<lambda>raw.
     bind_io (send smtp \<lparr>om_envelope_from = (case msg_envelope_from ctx of
                                                None \<Rightarrow> ''<>'' | Some f \<Rightarrow> f),
                         om_envelope_to = addresses, om_raw = raw\<rparr>) (\<lambda>_.
     ret_io discarded)))"
| "dispose_action self ctx (Reject reason) discarded =
     bind_io (ok_or (Smtp ''reject action requires SMTP configuration'') (ae_smtp self)) (\<lambda>smtp.
     bind_io (ok_or (Smtp ''reject requires envelope-from'') (msg_envelope_from ctx)) (\<lambda>to.
     bind_io (\<lambda>w. case ae_stamp self w of (stamp, w') \<Rightarrow> (Inr stamp, w')) (\<lambda>stamp.
     bind_io (send smtp \<lparr>om_envelope_from = [], om_envelope_to = [to],
                         om_raw = reject_body to (fst stamp) (reject_msg_id (snd stamp)) reason\<rparr>) (\<lambda>_.
     ret_io True))))"
| "dispose_action self ctx _ discarded = ret_io discarded"

fun dispose_loop ::
    "'w ActionExecutor \<Rightarrow> MessageContext \<Rightarrow> SieveAction list \<Rightarrow> bool \<Rightarrow> ('w, CoreError, bool) io" where
  "dispose_loop self ctx [] discarded = ret_io discarded"
| "dispose_loop self ctx (a # as) discarded =
     bind_io (dispose_action self ctx a discarded) (\<lambda>d. dispose_loop self ctx as d)"

definition discard_message :: "'w ActionExecutor \<Rightarrow> MessageContext \<Rightarrow> ('w, CoreError, unit) io" where
  "discard_message self ctx =
     bind_io (uid_store_flags (ae_imap self) (msg_uid ctx) Add [Deleted]) (\<lambda>_.
     if cap_uidplus (ae_caps self) then uid_expunge (ae_imap self) [msg_uid ctx] else ret_io ())"

definition execute ::
    "'w ActionExecutor \<Rightarrow> MessageContext \<Rightarrow> SieveAction list \<Rightarrow> ('w, CoreError, unit) io" where
  "execute self ctx actions =
     bind_io (flag_loop self ctx actions) (\<lambda>_.
     bind_io (dispose_loop self ctx actions False) (\<lambda>discarded.
     if discarded then discard_message self ctx else ret_io ()))"

section \<open>The plan of a message\<close>

text \<open>
  What the executor does is fixed before it starts: a list of effects, a pure function of the
  capabilities, of whether an SMTP relay is configured, of the message and of its actions,
  possibly ended by a local error. \<open>execute\<close> is the run of that plan, up to the first failure.
\<close>

datatype effect =
    Cmd Op
  | TryCreate string
  | SendMail OutgoingMail
  | SendReject string string

fun run_effect :: "'w ActionExecutor \<Rightarrow> effect \<Rightarrow> ('w, CoreError, unit) io" where
  "run_effect self (Cmd op) = run_op (ae_imap self) op"
| "run_effect self (TryCreate m) = ignore_io (uid_create_mailbox (ae_imap self) m)"
| "run_effect self (SendMail mail) =
     bind_io (ok_or (Smtp ''redirect action requires SMTP configuration'') (ae_smtp self)) (\<lambda>smtp.
     send smtp mail)"
| "run_effect self (SendReject to reason) =
     bind_io (ok_or (Smtp ''reject action requires SMTP configuration'') (ae_smtp self)) (\<lambda>smtp.
     bind_io (\<lambda>w. case ae_stamp self w of (stamp, w') \<Rightarrow> (Inr stamp, w')) (\<lambda>stamp.
     send smtp \<lparr>om_envelope_from = [], om_envelope_to = [to],
                om_raw = reject_body to (fst stamp) (reject_msg_id (snd stamp)) reason\<rparr>))"

fun run_effects :: "'w ActionExecutor \<Rightarrow> effect list \<Rightarrow> ('w, CoreError, unit) io" where
  "run_effects self [] = ret_io ()"
| "run_effects self (e # es) = bind_io (run_effect self e) (\<lambda>_. run_effects self es)"

fun flag_plan :: "u32 \<Rightarrow> SieveAction \<Rightarrow> effect list" where
  "flag_plan u (AddFlag flags) = [Cmd (Store u Add flags)]"
| "flag_plan u (RemoveFlag flags) = [Cmd (Store u Remove flags)]"
| "flag_plan u (SetFlag flags) = [Cmd (Store u Set flags)]"
| "flag_plan u _ = []"

fun dispose_plan :: "Capabilities \<Rightarrow> bool \<Rightarrow> MessageContext \<Rightarrow> SieveAction \<Rightarrow> effect list \<times> CoreError option" where
  "dispose_plan caps smtp ctx (FileInto m copy create) =
     ((if create then [TryCreate m] else []) @
      (if copy then [Cmd (Copy (msg_uid ctx) m)] else map Cmd (move_ops caps (msg_uid ctx) m)), None)"
| "dispose_plan caps smtp ctx (Redirect addresses) =
     (if \<not> smtp then ([], Some (Smtp ''redirect action requires SMTP configuration''))
      else case msg_raw ctx of
             None \<Rightarrow> ([], Some (Smtp ''redirect requires raw message body''))
           | Some raw \<Rightarrow>
               ([SendMail \<lparr>om_envelope_from = (case msg_envelope_from ctx of
                                                  None \<Rightarrow> ''<>'' | Some f \<Rightarrow> f),
                           om_envelope_to = addresses, om_raw = raw\<rparr>], None))"
| "dispose_plan caps smtp ctx (Reject reason) =
     (if \<not> smtp then ([], Some (Smtp ''reject action requires SMTP configuration''))
      else case msg_envelope_from ctx of
             None \<Rightarrow> ([], Some (Smtp ''reject requires envelope-from''))
           | Some to \<Rightarrow> ([SendReject to reason], None))"
| "dispose_plan caps smtp ctx _ = ([], None)"

fun discards :: "SieveAction \<Rightarrow> bool" where
  "discards Discard = True"
| "discards (Reject _) = True"
| "discards _ = False"

fun dispose_plans :: "Capabilities \<Rightarrow> bool \<Rightarrow> MessageContext \<Rightarrow> SieveAction list \<Rightarrow> effect list \<times> CoreError option" where
  "dispose_plans caps smtp ctx [] = ([], None)"
| "dispose_plans caps smtp ctx (a # as) =
     (case dispose_plan caps smtp ctx a of
        (es, Some e) \<Rightarrow> (es, Some e)
      | (es, None) \<Rightarrow> (case dispose_plans caps smtp ctx as of (es', r) \<Rightarrow> (es @ es', r)))"

definition discard_ops :: "Capabilities \<Rightarrow> u32 \<Rightarrow> Op list" where
  "discard_ops caps u = Store u Add [Deleted] # (if cap_uidplus caps then [Expunge [u]] else [])"

definition plan :: "Capabilities \<Rightarrow> bool \<Rightarrow> MessageContext \<Rightarrow> SieveAction list \<Rightarrow> effect list \<times> CoreError option" where
  "plan caps smtp ctx actions =
     (case dispose_plans caps smtp ctx actions of
        (es, Some e) \<Rightarrow> (concat (map (flag_plan (msg_uid ctx)) actions) @ es, Some e)
      | (es, None) \<Rightarrow>
          (concat (map (flag_plan (msg_uid ctx)) actions) @ es @
           (if \<exists>a \<in> set actions. discards a then map Cmd (discard_ops caps (msg_uid ctx)) else []), None))"

definition run_plan :: "'w ActionExecutor \<Rightarrow> effect list \<times> CoreError option \<Rightarrow> ('w, CoreError, unit) io" where
  "run_plan self p =
     bind_io (run_effects self (fst p)) (\<lambda>_. case snd p of None \<Rightarrow> ret_io () | Some e \<Rightarrow> throw_io e)"

lemma run_effects_append:
  "run_effects self (es @ fs) = bind_io (run_effects self es) (\<lambda>_. run_effects self fs)"
  by (induction es) (simp_all add: bind_io_assoc)

lemma run_effects_Cmd: "run_effects self (map Cmd ops) = run_ops (ae_imap self) ops"
  by (induction ops) simp_all

lemma flag_loop_plan:
  "flag_loop self ctx actions = run_effects self (concat (map (flag_plan (msg_uid ctx)) actions))"
proof (induction actions)
  case (Cons a as)
  have "flag_action self ctx a = run_effects self (flag_plan (msg_uid ctx) a)"
    by (cases a) simp_all
  with Cons show ?case by (simp add: run_effects_append)
qed simp

lemma bind_ok_or: "bind_io (ok_or e x) f = (case x of None \<Rightarrow> throw_io e | Some a \<Rightarrow> f a)"
  by (cases x) (simp_all add: bind_io_def fun_eq_iff)

lemma bind_cong_ret: "bind_io m (\<lambda>_. bind_io (ret_io a) f) = bind_io m (\<lambda>_. f a)"
  by simp

lemma dispose_action_plan:
  "dispose_action self ctx a d =
     (case dispose_plan (ae_caps self) (ae_smtp self \<noteq> None) ctx a of
        (es, err) \<Rightarrow> bind_io (run_effects self es) (\<lambda>_.
          case err of None \<Rightarrow> ret_io (d \<or> discards a) | Some e \<Rightarrow> throw_io e))"
  by (cases a)
     (auto simp: bind_ok_or run_effects_append run_effects_Cmd move_with_fallback_ops bind_io_assoc
           split: option.split)

lemma dispose_loop_plan:
  "dispose_loop self ctx actions d =
     (case dispose_plans (ae_caps self) (ae_smtp self \<noteq> None) ctx actions of
        (es, err) \<Rightarrow> bind_io (run_effects self es) (\<lambda>_.
          case err of None \<Rightarrow> ret_io (d \<or> (\<exists>a \<in> set actions. discards a)) | Some e \<Rightarrow> throw_io e))"
proof (induction actions arbitrary: d)
  case (Cons a as)
  show ?case
    by (auto simp: dispose_action_plan Cons.IH run_effects_append bind_io_assoc
          split: prod.split option.split)
qed simp

lemma execute_plan_eq:
  "execute self ctx actions = run_plan self (plan (ae_caps self) (ae_smtp self \<noteq> None) ctx actions)"
  by (auto simp: execute_def run_plan_def plan_def flag_loop_plan dispose_loop_plan discard_message_def
        discard_ops_def run_effects_append bind_io_assoc run_effects_Cmd split: prod.split option.split)

section \<open>What a plan contains\<close>

lemma flag_plan_Store: "e \<in> set (flag_plan u a) \<Longrightarrow> \<exists>f flags. e = Cmd (Store u f flags)"
  by (cases a) auto

lemma dispose_plans_mem:
  "e \<in> set (fst (dispose_plans caps smtp ctx actions)) \<Longrightarrow>
     \<exists>a \<in> set actions. e \<in> set (fst (dispose_plan caps smtp ctx a))"
proof (induction actions)
  case (Cons a as)
  then show ?case by (auto split: prod.splits option.splits)
qed simp

lemma dispose_plans_None:
  "snd (dispose_plans caps smtp ctx actions) = None \<longleftrightarrow>
     (\<forall>a \<in> set actions. snd (dispose_plan caps smtp ctx a) = None)"
  by (induction actions) (auto split: prod.splits option.splits)

lemma dispose_plans_all:
  "snd (dispose_plans caps smtp ctx actions) = None \<Longrightarrow>
     fst (dispose_plans caps smtp ctx actions) = concat (map (\<lambda>a. fst (dispose_plan caps smtp ctx a)) actions)"
  by (induction actions) (auto split: prod.splits option.splits)

lemma plan_mem:
  assumes "e \<in> set (fst (plan caps smtp ctx actions))"
  shows "(\<exists>f flags. e = Cmd (Store (msg_uid ctx) f flags)) \<or>
         (\<exists>a \<in> set actions. e \<in> set (fst (dispose_plan caps smtp ctx a))) \<or>
         (\<exists>a \<in> set actions. discards a) \<and> e \<in> Cmd ` set (discard_ops caps (msg_uid ctx))"
proof -
  from assms have "e \<in> set (concat (map (flag_plan (msg_uid ctx)) actions)) \<or>
      e \<in> set (fst (dispose_plans caps smtp ctx actions)) \<or>
      (\<exists>a \<in> set actions. discards a) \<and> e \<in> Cmd ` set (discard_ops caps (msg_uid ctx))"
    by (auto simp: plan_def split: prod.splits option.splits if_splits)
  moreover have "e \<in> set (concat (map (flag_plan (msg_uid ctx)) actions)) \<Longrightarrow>
      \<exists>f flags. e = Cmd (Store (msg_uid ctx) f flags)"
    using flag_plan_Store by (auto simp: set_concat)
  ultimately show ?thesis
    using dispose_plans_mem [of e caps smtp ctx actions] by satx
qed

lemma dispose_plan_about: "Cmd op \<in> set (fst (dispose_plan caps smtp ctx a)) \<Longrightarrow> about (msg_uid ctx) op"
  by (cases a) (auto dest: move_ops_about split: if_splits option.splits)

lemma plan_about: "Cmd op \<in> set (fst (plan caps smtp ctx actions)) \<Longrightarrow> about (msg_uid ctx) op"
  by (auto dest!: plan_mem dispose_plan_about simp: discard_ops_def split: if_splits)

fun needs_ok :: "bool \<Rightarrow> MessageContext \<Rightarrow> SieveAction \<Rightarrow> bool" where
  "needs_ok smtp ctx (Redirect _) \<longleftrightarrow> smtp \<and> msg_raw ctx \<noteq> None"
| "needs_ok smtp ctx (Reject _) \<longleftrightarrow> smtp \<and> msg_envelope_from ctx \<noteq> None"
| "needs_ok smtp ctx _ \<longleftrightarrow> True"

lemma dispose_plan_None: "snd (dispose_plan caps smtp ctx a) = None \<longleftrightarrow> needs_ok smtp ctx a"
  by (cases a) (auto split: option.splits)

lemma plan_None: "snd (plan caps smtp ctx actions) = None \<longleftrightarrow> (\<forall>a \<in> set actions. needs_ok smtp ctx a)"
  using dispose_plans_None [of caps smtp ctx actions]
  by (auto simp: plan_def dispose_plan_None split: prod.splits option.splits)

text \<open>The effects that take the message out of the mailbox it is in.\<close>

fun removal :: "effect \<Rightarrow> bool" where
  "removal (Cmd (Move _ _)) = True"
| "removal (Cmd (Expunge _)) = True"
| "removal _ = False"

fun removing :: "SieveAction \<Rightarrow> bool" where
  "removing (FileInto _ copy _) \<longleftrightarrow> \<not> copy"
| "removing a \<longleftrightarrow> discards a"

lemma dispose_plan_removal:
  "e \<in> set (fst (dispose_plan caps smtp ctx a)) \<Longrightarrow> removal e \<Longrightarrow> removing a"
  by (cases a) (auto split: if_splits option.splits)

lemma discards_removing: "discards a \<Longrightarrow> removing a"
  by (cases a) simp_all

lemma plan_removal:
  "e \<in> set (fst (plan caps smtp ctx actions)) \<Longrightarrow> removal e \<Longrightarrow> \<exists>a \<in> set actions. removing a"
  by (drule plan_mem) (auto dest: dispose_plan_removal discards_removing)

section \<open>Running effects\<close>

lemma keeps_effects:
  "(\<And>e. e \<in> set es \<Longrightarrow> keeps I (run_effect self e)) \<Longrightarrow> keeps I (run_effects self es)"
  by (induction es) (auto intro!: keeps_bind)

context imap_frame
begin

text \<open>
  An executor over a framed client, whose mail sender and clock respect the relation too, respects
  it as a whole.
\<close>

lemma keeps_execute:
  assumes "ae_imap self = C" and "msg_uid ctx = u"
    and "\<And>s m w. ae_smtp self = Some s \<Longrightarrow> R w (snd (send s m w))"
    and "\<And>w. R w (snd (ae_stamp self w))"
  shows "keeps (R w0) (execute self ctx actions)"
proof -
  have sends: "ae_smtp self = Some s \<Longrightarrow> keeps (R w0) (send s m)" for s m
    using assms(3) by (intro keeps_R)
  have mail: "keeps (R w0) (bind_io (ok_or e (ae_smtp self)) (\<lambda>smtp. send smtp m))" for e m
    using sends by (cases "ae_smtp self") (auto simp: bind_ok_or)
  have stamp: "keeps (R w0) (\<lambda>w. case ae_stamp self w of (stamp, w') \<Rightarrow> (Inr stamp, w'))"
    by (rule keeps_R) (metis assms(4) case_prod_beta snd_conv)
  have "keeps (R w0) (run_effect self e)"
    if "e \<in> set (fst (plan (ae_caps self) (ae_smtp self \<noteq> None) ctx actions))" for e
  proof (cases e)
    case (Cmd op)
    with that have "about u op" using plan_about assms(2) by blast
    then show ?thesis using Cmd assms(1) keeps_op by simp
  next
    case (TryCreate m)
    have "about u (CreateMailbox m)" by simp
    from keeps_op [OF this] show ?thesis using TryCreate assms(1) by (auto intro: keeps_ignore)
  next
    case (SendMail m)
    then show ?thesis using mail by simp
  next
    case (SendReject to reason)
    then show ?thesis
      using stamp sends
      by (cases "ae_smtp self") (auto simp: bind_ok_or intro!: keeps_bind [where m = "\<lambda>w. case ae_stamp self w of (stamp, w') \<Rightarrow> (Inr stamp, w')"])
  qed
  then have "keeps (R w0) (run_effects self (fst (plan (ae_caps self) (ae_smtp self \<noteq> None) ctx actions)))"
    by (rule keeps_effects)
  then show ?thesis
    unfolding execute_plan_eq run_plan_def by (auto intro!: keeps_bind split: option.split)
qed

lemma execute_respects:
  assumes "ae_imap self = C" and "msg_uid ctx = u"
    and "\<And>s m w. ae_smtp self = Some s \<Longrightarrow> R w (snd (send s m w))"
    and "\<And>w. R w (snd (ae_stamp self w))"
  shows "R w (snd (execute self ctx actions w))"
  using keepsD [OF keeps_execute [OF assms] R_refl] .

end

text \<open>A discard among the actions only sets the variable, so it can be taken out and done at the end.\<close>

lemma flag_loop_filter: "flag_loop self ctx (filter (\<lambda>a. a \<noteq> Discard) actions) = flag_loop self ctx actions"
  by (induction actions) auto

lemma dispose_plans_filter:
  "dispose_plans caps smtp ctx (filter (\<lambda>a. a \<noteq> Discard) actions) = dispose_plans caps smtp ctx actions"
  by (induction actions) (auto split: prod.split option.split)

lemma execute_without_discard:
  assumes "Discard \<in> set actions"
  shows "execute self ctx actions =
           bind_io (execute self ctx (filter (\<lambda>a. a \<noteq> Discard) actions))
             (\<lambda>_. if (\<exists>reason. Reject reason \<in> set actions) then ret_io () else discard_message self ctx)"
proof -
  let ?rest = "filter (\<lambda>a. a \<noteq> Discard) actions"
  have d: "\<exists>a \<in> set actions. discards a" using assms by (intro bexI [of _ Discard]) simp_all
  have "(\<exists>a \<in> set ?rest. discards a) = (\<exists>reason. Reject reason \<in> set actions)"
  proof
    assume "\<exists>a \<in> set ?rest. discards a"
    then obtain a where a: "a \<in> set actions" "a \<noteq> Discard" and da: "discards a" by auto
    from a(2) da obtain reason where "a = Reject reason" by (cases a) auto
    with a show "\<exists>reason. Reject reason \<in> set actions" by blast
  next
    assume "\<exists>reason. Reject reason \<in> set actions"
    then obtain reason where "Reject reason \<in> set actions" ..
    then show "\<exists>a \<in> set ?rest. discards a" by (intro bexI [of _ "Reject reason"]) simp_all
  qed
  with d show ?thesis
    unfolding execute_def flag_loop_filter dispose_loop_plan dispose_plans_filter
    by (auto simp: bind_io_assoc split: prod.split option.split)
qed

text \<open>The commands of an effect that sends no mail.\<close>

fun effect_ops :: "effect \<Rightarrow> Op list" where
  "effect_ops (Cmd op) = [op]"
| "effect_ops (TryCreate m) = [CreateMailbox m]"
| "effect_ops _ = []"

fun mails :: "effect \<Rightarrow> bool" where
  "mails (SendMail _) = True"
| "mails (SendReject _ _) = True"
| "mails _ = False"

lemma fake_run_effects:
  assumes "ae_imap self = fake_imap" and "\<forall>e \<in> set es. \<not> mails e"
  shows "run_effects self es w = (Inr (), w\<lparr>fk_ops := fk_ops w @ concat (map effect_ops es)\<rparr>)"
  using assms(2)
proof (induction es arbitrary: w)
  case (Cons e es)
  from Cons.prems obtain op where e: "e = Cmd op \<or> (\<exists>m. e = TryCreate m \<and> op = CreateMailbox m)"
    by (cases e) auto
  then have "run_effect self e w = (Inr (), w\<lparr>fk_ops := fk_ops w @ effect_ops e\<rparr>)"
    using assms(1) fake_run_op by (auto simp: push_op_def fake_imap_def)
  then show ?case using Cons by simp
qed simp

lemma plan_no_mail:
  assumes "\<forall>a \<in> set actions. \<not> (\<exists>x. a = Redirect x) \<and> \<not> (\<exists>x. a = Reject x)"
  shows "\<forall>e \<in> set (fst (plan caps smtp ctx actions)). \<not> mails e" and "snd (plan caps smtp ctx actions) = None"
proof -
  have "\<not> mails e" if "a \<in> set actions" "e \<in> set (fst (dispose_plan caps smtp ctx a))" for a e
    using that(2) bspec [OF assms that(1)] by (cases a) (auto split: if_splits)
  then show "\<forall>e \<in> set (fst (plan caps smtp ctx actions)). \<not> mails e"
    by (auto dest!: plan_mem)
  show "snd (plan caps smtp ctx actions) = None"
    unfolding plan_None
  proof
    fix a
    assume "a \<in> set actions"
    with assms show "needs_ok smtp ctx a" by (cases a) auto
  qed
qed

section \<open>Properties\<close>

text \<open>
  C3. The executor carries out a plan that is fixed in advance: flag commands in the order of the
  actions, then the commands and mails of the dispositions in order, then the discarding of the
  message if some action asks for it, each step only if every earlier one succeeded. The plan is a
  function of the capabilities, of whether a relay is configured, of the message and its actions;
  a missing relay, body or sender address cuts it off with an error at that action.
\<close>

theorem execute_follows_plan:
  "execute self ctx actions = run_plan self (plan (ae_caps self) (ae_smtp self \<noteq> None) ctx actions)"
  by (rule execute_plan_eq)

text \<open>
  C18. An execution touches one message only. Take any observation of the world that no command
  about this message changes (and neither the mail sender nor the clock): the executor leaves it
  as it is, whatever the actions are and however the execution ends.
\<close>

theorem execute_touches_one_message:
  assumes "\<And>op w. about (msg_uid ctx) op \<Longrightarrow> obs (snd (run_op (ae_imap self) op w)) = obs w"
    and "\<And>s m w. ae_smtp self = Some s \<Longrightarrow> obs (snd (send s m w)) = obs w"
    and "\<And>w. obs (snd (ae_stamp self w)) = obs w"
  shows "obs (snd (execute self ctx actions w)) = obs w"
proof -
  have "imap_frame (ae_imap self) (\<lambda>w w'. obs w' = obs w) (msg_uid ctx)"
    using assms(1) by unfold_locales simp_all
  from imap_frame.execute_respects [OF this] assms(2,3) show ?thesis by auto
qed

definition sample_executor :: "FakeImap ActionExecutor" where
  "sample_executor =
     \<lparr>ae_imap = fake_imap, ae_smtp = None, ae_caps = fk_caps new_FakeImap,
      ae_source_mailbox = ''INBOX'', ae_stamp = (\<lambda>w. (([], []), w))\<rparr>"

theorem execute_touches_one_message_witness:
  "fake_obs 5 (snd (execute sample_executor (sample_msg 5) [FileInto ''A'' False True] new_FakeImap)) =
     fake_obs 5 new_FakeImap"
proof (rule execute_touches_one_message)
  show "fake_obs 5 (snd (run_op (ae_imap sample_executor) op w)) = fake_obs 5 w"
    if "about (msg_uid (sample_msg 5)) op" for op w
    using that fake.frame [of 5 op w] by (simp add: sample_executor_def sample_msg_def)
qed (simp_all add: sample_executor_def)

text \<open>
  A message leaves its mailbox only if it is told to: the plan moves or expunges nothing
  unless some action is a discard, a rejection, or a filing that is not a copy.
\<close>

theorem no_removal_unasked:
  assumes "e \<in> set (fst (plan caps smtp ctx actions))" and "removal e"
  shows "\<exists>a \<in> set actions. removing a"
  using assms by (rule plan_removal)

theorem no_removal_unasked_witness:
  "\<exists>a \<in> set [FileInto ''A'' False False]. removing a"
  by (rule no_removal_unasked [of "Cmd (Move 5 ''A'')" "fk_caps new_FakeImap" False "sample_msg 5"])
     (simp_all add: plan_def move_ops_def new_FakeImap_def sample_msg_def)

text \<open>
  C19. A discard comes last, wherever the script has it, and once. Executing actions that contain a
  discard is executing all the other actions first, flags, filings, redirects and rejections, and
  then, only if all of that has succeeded, flagging the message as deleted and expunging it. A
  rejection ends with the same deletion, so beside one the discard adds nothing.
\<close>

theorem discard_comes_last:
  assumes "Discard \<in> set actions"
  shows "execute self ctx actions =
           bind_io (execute self ctx (filter (\<lambda>a. a \<noteq> Discard) actions))
             (\<lambda>_. if (\<exists>reason. Reject reason \<in> set actions) then ret_io () else discard_message self ctx)"
  using assms by (rule execute_without_discard)

theorem discard_comes_last_witness:
  "fk_ops (snd (execute sample_executor (sample_msg 5) [Discard, FileInto ''A'' True False] new_FakeImap)) =
     [Copy 5 ''A'', Store 5 Add [Deleted], Expunge [5]]"
  by (subst discard_comes_last)
     (simp_all add: sample_executor_def execute_def discard_message_def bind_io_def ret_io_def fake_imap_def
        push_op_def new_FakeImap_def sample_msg_def)

text \<open>
  The plan ends with an error of the executor's own exactly if some action needs what is
  missing: a redirect without a relay or without the message's body, or a rejection without a
  relay or without an envelope sender.
\<close>

theorem plan_error_iff:
  "(snd (plan caps smtp ctx actions) \<noteq> None) =
     (\<exists>a \<in> set actions. (\<exists>to. a = Redirect to \<and> \<not> (smtp \<and> msg_raw ctx \<noteq> None)) \<or>
        (\<exists>reason. a = Reject reason \<and> \<not> (smtp \<and> msg_envelope_from ctx \<noteq> None)))"
proof -
  have "needs_ok smtp ctx a \<longleftrightarrow> \<not> ((\<exists>to. a = Redirect to \<and> \<not> (smtp \<and> msg_raw ctx \<noteq> None)) \<or>
      (\<exists>reason. a = Reject reason \<and> \<not> (smtp \<and> msg_envelope_from ctx \<noteq> None)))" for a
    by (cases a) auto
  with plan_None [of caps smtp ctx actions] show ?thesis by auto
qed

text \<open>
  On the in-memory client, actions that send no mail succeed, and the commands recorded are
  exactly those of the plan, in order, an attempted CREATE included.
\<close>

theorem fake_trace:
  assumes "ae_imap self = fake_imap"
    and "\<forall>a \<in> set actions. \<not> (\<exists>x. a = Redirect x) \<and> \<not> (\<exists>x. a = Reject x)"
  shows "execute self ctx actions w =
           (Inr (), w\<lparr>fk_ops := fk_ops w @
              concat (map effect_ops (fst (plan (ae_caps self) (ae_smtp self \<noteq> None) ctx actions)))\<rparr>)"
  using fake_run_effects [OF assms(1) plan_no_mail(1) [OF assms(2)]] plan_no_mail(2) [OF assms(2)]
  by (simp add: execute_plan_eq run_plan_def)

theorem fake_trace_witness:
  "fk_ops (snd (execute sample_executor (sample_msg 5)
      [SetFlag [''Junk''], FileInto ''A'' True True, Discard] new_FakeImap)) =
     [Store 5 Set [''Junk''], CreateMailbox ''A'', Copy 5 ''A'', Store 5 Add [Deleted], Expunge [5]]"
  by (subst fake_trace)
     (simp_all add: sample_executor_def plan_def discard_ops_def sample_msg_def new_FakeImap_def)

section \<open>The notice, as a message\<close>

lemma safe_reason_no_LF: "LF \<notin> set (safe_reason reason)"
  unfolding safe_reason_def by (rule replace_char_removes) simp

definition reject_fields :: "string \<Rightarrow> string \<Rightarrow> string \<Rightarrow> written_field list" where
  "reject_fields to date msg_id =
     map (\<lambda>l. (l, [])) [''From: <>'', ''To: '' @ to, ''Date: '' @ date, ''Message-ID: '' @ msg_id,
       ''MIME-Version: 1.0'', ''Subject: Mail rejected'', ''Content-Type: text/plain; charset=utf-8'']"

lemma reject_body_fields:
  "reject_body to date msg_id reason =
     concat (map render_field (reject_fields to date msg_id)) @ CRLF @ safe_reason reason @ CRLF"
  by (simp add: reject_body_def reject_fields_def render_field_def field_lines_def)

definition one_line :: "string \<Rightarrow> bool" where
  "one_line s \<longleftrightarrow> LF \<notin> set s \<and> CR \<notin> set s \<and> from_utf8_lossy s = s"

lemma reject_fields_wf:
  "one_line to \<Longrightarrow> one_line date \<Longrightarrow> one_line msg_id \<Longrightarrow> \<forall>f \<in> set (reject_fields to date msg_id). wf_field f"
  by (simp add: reject_fields_def wf_field_def plain_line_def folding_ws_def one_line_def byte_def)

lemma parse_field_colon:
  "CHR '':'' \<notin> set n \<Longrightarrow> parse_field (n @ CHR '':'' # v) = Some (to_ascii_lowercase (trim n), trim v)"
  by (simp add: parse_field_def)

lemma lowercase_names:
  "to_ascii_lowercase (trim ''From'') = ''from''" "to_ascii_lowercase (trim ''To'') = ''to''"
  "to_ascii_lowercase (trim ''Date'') = ''date''"
  "to_ascii_lowercase (trim ''Message-ID'') = ''message-id''"
  "to_ascii_lowercase (trim ''MIME-Version'') = ''mime-version''"
  "to_ascii_lowercase (trim ''Subject'') = ''subject''"
  "to_ascii_lowercase (trim ''Content-Type'') = ''content-type''"
  "trim '' <>'' = ''<>''" "trim '' 1.0'' = ''1.0''" "trim '' Mail rejected'' = ''Mail rejected''"
  "trim '' text/plain; charset=utf-8'' = ''text/plain; charset=utf-8''"
  by code_simp+

lemma reject_fields_parsed:
  "map parse_field (map logical_line (reject_fields to date msg_id)) =
     map Some [(''from'', ''<>''), (''to'', trim (SP # to)), (''date'', trim (SP # date)),
       (''message-id'', trim (SP # msg_id)), (''mime-version'', ''1.0''),
       (''subject'', ''Mail rejected''), (''content-type'', ''text/plain; charset=utf-8'')]"
  using parse_field_colon [of "''From''" "'' <>''"] parse_field_colon [of "''To''" "SP # to"]
    parse_field_colon [of "''Date''" "SP # date"] parse_field_colon [of "''Message-ID''" "SP # msg_id"]
    parse_field_colon [of "''MIME-Version''" "'' 1.0''"]
    parse_field_colon [of "''Subject''" "'' Mail rejected''"]
    parse_field_colon [of "''Content-Type''" "'' text/plain; charset=utf-8''"]
  by (simp add: reject_fields_def logical_line_def lowercase_names)

lemma add_header_fresh:
  "parse_field l = Some (n, v) \<Longrightarrow> h n = None \<Longrightarrow> add_header h l = h(n \<mapsto> v)"
  by (auto simp: add_header_def)

text \<open>
  C27. The rejection notice parses back to its seven fields whatever the reason of the script is:
  no reason can add or change a header. The address, the date and the identifier must be single
  lines of UTF-8.
\<close>

theorem reject_notice_headers:
  assumes "one_line to" and "one_line date" and "one_line msg_id"
  shows "parse_headers (reject_body to date msg_id reason) =
           [''from'' \<mapsto> ''<>'', ''to'' \<mapsto> trim (SP # to), ''date'' \<mapsto> trim (SP # date),
            ''message-id'' \<mapsto> trim (SP # msg_id), ''mime-version'' \<mapsto> ''1.0'',
            ''subject'' \<mapsto> ''Mail rejected'', ''content-type'' \<mapsto> ''text/plain; charset=utf-8'']"
proof -
  have "parse_headers (reject_body to date msg_id reason) =
      (\<lambda>k. joined (values_of k (map logical_line (reject_fields to date msg_id))))"
    unfolding reject_body_fields using assms by (intro parse_headers_block reject_fields_wf)
  also have "\<dots> = foldl add_header Map.empty (map logical_line (reject_fields to date msg_id))"
    by (simp add: foldl_add_header fun_eq_iff)
  finally show ?thesis
    using reject_fields_parsed [of to date msg_id]
    by (simp add: reject_fields_def logical_line_def add_header_fresh)
qed

theorem reject_notice_headers_witness:
  "parse_headers (reject_body ''a@b'' ''today'' ''<1>'' (''x'' @ CRLF @ ''Bcc: z@w'')) ''bcc'' = None"
  by (subst reject_notice_headers) (simp_all add: one_line_def byte_def)

end
