(* ===== verification/Processor.thy ===== *)
theory Processor
  imports Action_Executor Samples
begin

text \<open>
  \<open>processor.rs\<close>: one batch. The world of a batch is the outside world \<open>'w\<close> of the IMAP client
  and the mail sender, the state store and the disk it writes to. The script handle is the field
  \<open>mp_current\<close>, which reads the script cell out of the outside world, because the watcher thread
  may have stored a new script by the time the batch reads it.

  \<open>u32\<close> additions wrap around: the workspace's release profile does not turn overflow checks on
  (a debug build panics instead).
\<close>

type_synonym 'w world = "'w \<times> StateStore \<times> disk"

record ('w, 's) MessageProcessor =
  mp_engine :: "'s SieveEngine"
  mp_current :: "'w \<Rightarrow> 's"
  mp_imap :: "'w ImapClient"
  mp_smtp :: "'w MailSender option"
  mp_caps :: Capabilities
  mp_mailbox :: string
  mp_batch_size :: u64
  mp_stamp :: "'w \<Rightarrow> (string \<times> string) \<times> 'w"
  mp_serde :: Serde

definition executor :: "('w, 's) MessageProcessor \<Rightarrow> 'w ActionExecutor" where
  "executor self =
     \<lparr>ae_imap = mp_imap self, ae_smtp = mp_smtp self, ae_caps = mp_caps self,
      ae_source_mailbox = mp_mailbox self, ae_stamp = mp_stamp self\<rparr>"

text \<open>The closure passed to \<open>state.update\<close> after a message.\<close>

definition advance_to :: "u32 \<Rightarrow> State \<Rightarrow> State" where
  "advance_to uid s =
     s\<lparr>st_last_seen_uid := Some (max uid (case st_last_seen_uid s of None \<Rightarrow> 0 | Some u \<Rightarrow> u))\<rparr>"

fun process_loop ::
    "('w, 's) MessageProcessor \<Rightarrow> 's \<Rightarrow> MessageContext list \<Rightarrow> ProcessingResult list
       \<Rightarrow> ('w world, CoreError, ProcessingResult list) io"
where
  "process_loop self script [] results w = (Inr results, w)"
| "process_loop self script (msg # msgs) results w =
     (case evaluate (mp_engine self) script msg of
        Inl e \<Rightarrow>
          (Inr (results @ [\<lparr>pr_uid = msg_uid msg, pr_actions = [Keep],
                            pr_status = SieveError (display_sieve_error e)\<rparr>]), w)
      | Inr actions \<Rightarrow>
     case execute (executor self) msg actions (fst w) of
        (Inl e, w') \<Rightarrow>
          (Inr (results @ [\<lparr>pr_uid = msg_uid msg, pr_actions = actions,
                            pr_status = ActionError (display_core_error e)\<rparr>]), (w', snd w))
      | (Inr _, w') \<Rightarrow>
     case update (mp_serde self) (advance_to (msg_uid msg)) (snd w) of
        (Inl e, st) \<Rightarrow> (Inl (State e), (w', st))
      | (Inr _, st) \<Rightarrow>
          process_loop self script msgs
            (results @ [\<lparr>pr_uid = msg_uid msg, pr_actions = actions, pr_status = Ok\<rparr>]) (w', st))"

definition last_seen :: "'w world \<Rightarrow> u32 option" where
  "last_seen w = st_last_seen_uid (ss_state (fst (snd w)))"

definition run_batch :: "('w, 's) MessageProcessor \<Rightarrow> ('w world, CoreError, ProcessingResult list) io" where
  "run_batch self w =
     (case last_seen w of
        None \<Rightarrow> (Inl (Imap ''last_seen_uid not initialized; SessionManager must seed it from UIDNEXT''), w)
      | Some uid \<Rightarrow>
          let start = uid + 1;
              changed_since = (if cap_condstore (mp_caps self)
                               then st_highestmodseq (ss_state (fst (snd w))) else None)
          in case fetch_uid_range (mp_imap self) (mp_mailbox self) start changed_since (fst w) of
               (Inl e, w') \<Rightarrow> (Inl e, (w', snd w))
             | (Inr messages, w') \<Rightarrow>
                 process_loop self (mp_current self w') (take (unat (mp_batch_size self)) messages) []
                   (w', snd w))"

section \<open>What a batch has done\<close>

text \<open>
  \<open>handled self script msgs w results w'\<close>: from \<open>w\<close>, every message of \<open>msgs\<close> has been evaluated
  and executed without error and recorded in the state, one after the other, ending in \<open>w'\<close>.
\<close>

inductive handled ::
    "('w, 's) MessageProcessor \<Rightarrow> 's \<Rightarrow> MessageContext list \<Rightarrow> 'w world \<Rightarrow> ProcessingResult list
       \<Rightarrow> 'w world \<Rightarrow> bool"
  for self script where
  nothing: "handled self script [] w [] w"
| message: "evaluate (mp_engine self) script msg = Inr actions \<Longrightarrow>
     execute (executor self) msg actions w = (Inr (), w') \<Longrightarrow>
     update (mp_serde self) (advance_to (msg_uid msg)) st = (Inr (), st') \<Longrightarrow>
     handled self script msgs (w', st') rs w'' \<Longrightarrow>
     handled self script (msg # msgs) (w, st)
       (\<lparr>pr_uid = msg_uid msg, pr_actions = actions, pr_status = Ok\<rparr> # rs) w''"

inductive_cases handled_ConsE: "handled self script (msg # msgs) w rs w'"
inductive_simps handled_Nil [simp]: "handled self script [] w rs w'"

text \<open>
  How a batch can end after it has handled some messages: it has handled all of them; the next
  one cannot be evaluated; its actions fail; or the state cannot be written after they succeeded.
\<close>

datatype batch_end = Complete | EvalFailed SieveError | ActFailed "SieveAction list" CoreError | SaveFailed StateError

fun ends ::
    "('w, 's) MessageProcessor \<Rightarrow> 's \<Rightarrow> MessageContext list \<Rightarrow> 'w world \<Rightarrow> batch_end
       \<Rightarrow> (CoreError + ProcessingResult list) \<Rightarrow> 'w world \<Rightarrow> bool"
where
  "ends self script rest w Complete r w' \<longleftrightarrow> rest = [] \<and> r = Inr [] \<and> w' = w"
| "ends self script rest w (EvalFailed e) r w' \<longleftrightarrow>
     (\<exists>msg msgs. rest = msg # msgs \<and> evaluate (mp_engine self) script msg = Inl e \<and> w' = w \<and>
       r = Inr [\<lparr>pr_uid = msg_uid msg, pr_actions = [Keep], pr_status = SieveError (display_sieve_error e)\<rparr>])"
| "ends self script rest w (ActFailed actions e) r w' \<longleftrightarrow>
     (\<exists>msg msgs. rest = msg # msgs \<and> evaluate (mp_engine self) script msg = Inr actions \<and>
       execute (executor self) msg actions (fst w) = (Inl e, fst w') \<and> snd w' = snd w \<and>
       r = Inr [\<lparr>pr_uid = msg_uid msg, pr_actions = actions, pr_status = ActionError (display_core_error e)\<rparr>])"
| "ends self script rest w (SaveFailed e) r w' \<longleftrightarrow>
     (\<exists>msg msgs actions. rest = msg # msgs \<and> evaluate (mp_engine self) script msg = Inr actions \<and>
       execute (executor self) msg actions (fst w) = (Inr (), fst w') \<and>
       update (mp_serde self) (advance_to (msg_uid msg)) (snd w) = (Inl e, snd w') \<and>
       r = Inl (State e))"

lemma process_loop_shape:
  assumes "process_loop self script msgs results w = (r, w')"
  shows "\<exists>pre rest rs w1 how r1. msgs = pre @ rest \<and> handled self script pre w rs w1 \<and>
           ends self script rest w1 how r1 w' \<and> r = map_ok (\<lambda>tail. results @ rs @ tail) r1"
  using assms
proof (induction msgs arbitrary: results w)
  case (Nil results w)
  then have "ends self script [] w Complete (Inr []) w'" by simp
  with Nil show ?case
    by (intro exI [of _ "[]"] exI [of _ w] exI [of _ Complete] exI [of _ "Inr []"]) simp
next
  case (Cons msg msgs results w)
  obtain w0 st0 where w: "w = (w0, st0)" by (rule prod.exhaust)
  show ?case
  proof (cases "evaluate (mp_engine self) script msg")
    case (Inl e)
    with Cons.prems show ?thesis
      by (intro exI [of _ "[]"] exI [of _ "msg # msgs"] exI [of _ w] exI [of _ "EvalFailed e"]
          exI [of _ "projr r"] exI [of _ "Inr [_]"]) auto
  next
    case ev: (Inr actions)
    obtain re w1 where ex: "execute (executor self) msg actions w0 = (re, w1)" by (rule prod.exhaust)
    show ?thesis
    proof (cases re)
      case (Inl e)
      with Cons.prems ev ex w show ?thesis
        by (intro exI [of _ "[]"] exI [of _ "msg # msgs"] exI [of _ w]
            exI [of _ "ActFailed actions e"] exI [of _ "Inr [_]"]) auto
    next
      case re: (Inr u)
      obtain ru st1 where up: "update (mp_serde self) (advance_to (msg_uid msg)) st0 = (ru, st1)"
        by (rule prod.exhaust)
      show ?thesis
      proof (cases ru)
        case (Inl e)
        with Cons.prems ev ex re up w show ?thesis
          by (intro exI [of _ "[]"] exI [of _ "msg # msgs"] exI [of _ w]
              exI [of _ "SaveFailed e"] exI [of _ "Inl (State e)"]) auto
      next
        case ru: (Inr v)
        let ?p = "\<lparr>pr_uid = msg_uid msg, pr_actions = actions, pr_status = Ok\<rparr>"
        from Cons.prems ev ex re up ru w
        have "process_loop self script msgs (results @ [?p]) (w1, st1) = (r, w')" by simp
        from Cons.IH [OF this] obtain pre rest rs w2 how r1 where
          split: "msgs = pre @ rest" "handled self script pre (w1, st1) rs w2"
            "ends self script rest w2 how r1 w'"
            "r = map_ok (\<lambda>tail. (results @ [?p]) @ rs @ tail) r1"
          by blast
        have h: "handled self script (msg # pre) w (?p # rs) w2"
          using ev ex re up ru w split(2) by (auto intro: handled.message)
        show ?thesis
          by (rule exI [of _ "msg # pre"], rule exI [of _ rest], rule exI [of _ "?p # rs"],
              rule exI [of _ w2], rule exI [of _ how], rule exI [of _ r1]) (use split h in simp)
      qed
    qed
  qed
qed

section \<open>The recorded UID\<close>

context state_cell
begin

lemma last_seen_after:
  "st_last_seen_uid (get (snd (upd (advance_to uid) w))) =
     Some (max uid (case st_last_seen_uid (get w) of None \<Rightarrow> 0 | Some u \<Rightarrow> u))"
  by (simp add: get_upd advance_to_def)

lemma rest_after:
  "st_uidvalidity (get (snd (upd (advance_to uid) w))) = st_uidvalidity (get w)"
  "st_highestmodseq (get (snd (upd (advance_to uid) w))) = st_highestmodseq (get w)"
  "st_selected_mailbox (get (snd (upd (advance_to uid) w))) = st_selected_mailbox (get w)"
  by (rule get_upd_frame, simp add: advance_to_def)+

end

text \<open>
  A computation on the world of a batch that respects a relation on the store and disk, whatever
  the outside world does. \<open>advance_to\<close> progresses, so a batch respects every evolution.
\<close>

definition moves :: "(StateStore \<times> disk \<Rightarrow> StateStore \<times> disk \<Rightarrow> bool) \<Rightarrow> ('w world, 'e, 'a) io \<Rightarrow> bool" where
  "moves R m \<longleftrightarrow> (\<forall>w. R (snd w) (snd (snd (m w))))"

lemma movesI: "(\<And>w. R (snd w) (snd (snd (m w)))) \<Longrightarrow> moves R m"
  by (simp add: moves_def)

lemma movesD: "moves R m \<Longrightarrow> m w = (r, w') \<Longrightarrow> R (snd w) (snd w')"
  unfolding moves_def by (metis snd_conv)

lemma progress_advance_to: "progress s (advance_to uid s)"
  by (auto simp: progress_def advance_to_def)

context store_evolution
begin

lemma moves_ret: "moves R (ret_io a)" and moves_throw: "moves R (throw_io e)"
  by (simp_all add: moves_def R_refl)

lemma moves_bind:
  assumes "moves R m" and "\<And>a. moves R (f a)"
  shows "moves R (bind_io m f)"
proof (rule movesI)
  fix w
  obtain r w' where m: "m w = (r, w')" by (rule prod.exhaust)
  then have p: "R (snd w) (snd w')" by (rule movesD [OF assms(1)])
  show "R (snd w) (snd (snd (bind_io m f w)))"
  proof (cases r)
    case (Inr a)
    have "R (snd w') (snd (snd (f a w')))" using assms(2) [unfolded moves_def] by blast
    with p have "R (snd w) (snd (snd (f a w')))" by (rule R_trans)
    with m Inr show ?thesis by simp
  qed (use m p in simp)
qed

lemma process_loop_moves:
  "mp_serde self = serde \<Longrightarrow> R (snd w) (snd (snd (process_loop self script msgs results w)))"
proof (induction self script msgs results w rule: process_loop.induct)
  case (2 self script msg msgs results w)
  have up: "update (mp_serde self) (advance_to (msg_uid msg)) (snd w) = (r, st) \<Longrightarrow> R (snd w) st" for r st
    using R_updated progress_advance_to 2(2) by metis
  show ?case
    using 2 by (auto intro: R_refl R_trans [OF up] up split: sum.split prod.split)
qed (simp add: R_refl)

lemma run_batch_moves:
  assumes "mp_serde self = serde"
  shows "moves R (run_batch self)"
proof (rule movesI)
  fix w :: "'a world"
  show "R (snd w) (snd (snd (run_batch self w)))"
    using process_loop_moves [OF assms, of "(_, snd w)"] R_refl
    by (auto simp: run_batch_def Let_def split: option.split prod.split sum.split)
qed

end

definition fold_max :: "u32 \<Rightarrow> MessageContext list \<Rightarrow> u32" where
  "fold_max u msgs = foldl (\<lambda>a m. max (msg_uid m) a) u msgs"

lemma fold_max_Nil [simp]: "fold_max u [] = u"
  and fold_max_Cons [simp]: "fold_max u (m # msgs) = fold_max (max (msg_uid m) u) msgs"
  and fold_max_snoc [simp]: "fold_max u (msgs @ [m]) = max (msg_uid m) (fold_max u msgs)"
  by (simp_all add: fold_max_def)

lemma fold_max_ge: "u \<le> fold_max u msgs"
  by (induction msgs arbitrary: u) (auto intro: order_trans [OF max.cobounded2])

lemma le_fold_max: "v \<le> fold_max u msgs \<longleftrightarrow> v \<le> u \<or> (\<exists>m \<in> set msgs. v \<le> msg_uid m)"
  by (induction msgs arbitrary: u) (auto simp: le_max_iff_disj)

lemma update_advance:
  assumes "update serde (advance_to uid) st = (r, st')"
    and "st_last_seen_uid (ss_state (fst st)) = Some u"
  shows "st_last_seen_uid (ss_state (fst st')) = Some (max uid u)"
    and "st_uidvalidity (ss_state (fst st')) = st_uidvalidity (ss_state (fst st))"
    and "st_highestmodseq (ss_state (fst st')) = st_highestmodseq (ss_state (fst st))"
  using assms store.last_seen_after [of serde uid st] store.rest_after [of serde uid st] by simp_all

lemma handled_last_seen:
  "handled self script msgs w rs w' \<Longrightarrow> last_seen w = Some u \<Longrightarrow> last_seen w' = Some (fold_max u msgs)"
  by (induction arbitrary: u rule: handled.induct)
     (auto simp: last_seen_def dest: update_advance)

lemma handled_length: "handled self script msgs w rs w' \<Longrightarrow> length rs = length msgs"
  by (induction rule: handled.induct) simp_all

lemma handled_results:
  "handled self script msgs w rs w' \<Longrightarrow>
     map pr_uid rs = map msg_uid msgs \<and> (\<forall>r \<in> set rs. pr_status r = Ok)"
  by (induction rule: handled.induct) simp_all

lemma handled_append:
  "handled self script (as @ bs) w rs w' \<Longrightarrow>
     \<exists>rs1 rs2 w1. rs = rs1 @ rs2 \<and> handled self script as w rs1 w1 \<and> handled self script bs w1 rs2 w'"
proof (induction as arbitrary: w rs)
  case (Cons a as)
  from Cons.prems obtain actions w0 st0 w1 st1 rs' where
    h: "w = (w0, st0)" "evaluate (mp_engine self) script a = Inr actions"
      "execute (executor self) a actions w0 = (Inr (), w1)"
      "update (mp_serde self) (advance_to (msg_uid a)) st0 = (Inr (), st1)"
      "handled self script (as @ bs) (w1, st1) rs' w'"
      "rs = \<lparr>pr_uid = msg_uid a, pr_actions = actions, pr_status = Ok\<rparr> # rs'"
    by (auto elim: handled_ConsE)
  from Cons.IH [OF h(5)] h show ?case
    by (metis append_Cons handled.message)
qed auto

text \<open>The actions of message \<open>m\<close> have been executed, without error, in its turn.\<close>

definition was_executed ::
    "('w, 's) MessageProcessor \<Rightarrow> 's \<Rightarrow> MessageContext list \<Rightarrow> 'w world \<Rightarrow> MessageContext \<Rightarrow> bool"
where
  "was_executed self script msgs w m \<longleftrightarrow>
     (\<exists>pre rest rs w1 actions w2. msgs = pre @ m # rest \<and> handled self script pre w rs w1 \<and>
        evaluate (mp_engine self) script m = Inr actions \<and>
        execute (executor self) m actions (fst w1) = (Inr (), w2))"

lemma was_executedI:
  "msgs = pre @ m # rest \<Longrightarrow> handled self script pre w rs w1 \<Longrightarrow>
     evaluate (mp_engine self) script m = Inr actions \<Longrightarrow>
     execute (executor self) m actions (fst w1) = (Inr (), w2) \<Longrightarrow> was_executed self script msgs w m"
  unfolding was_executed_def by blast

lemma handled_was_executed:
  assumes "handled self script pre w rs w'" and "m \<in> set pre"
  shows "was_executed self script (pre @ rest) w m"
proof -
  from assms(2) obtain a b where pre: "pre = a @ m # b" by (auto dest: split_list)
  from handled_append [OF assms(1) [unfolded pre]] obtain rs1 rs2 w1 where
    a: "handled self script a w rs1 w1" and m: "handled self script (m # b) w1 rs2 w'" by blast
  from m obtain actions w2 where "evaluate (mp_engine self) script m = Inr actions"
    and "execute (executor self) m actions (fst w1) = (Inr (), w2)"
    by (auto elim!: handled_ConsE)
  moreover have "pre @ rest = a @ m # b @ rest" by (simp add: pre)
  ultimately show ?thesis using a by (intro was_executedI)
qed

text \<open>How far the recorded UID has moved when a batch ends.\<close>

fun saved :: "batch_end \<Rightarrow> MessageContext list \<Rightarrow> MessageContext list" where
  "saved (SaveFailed e) rest = take 1 rest"
| "saved _ rest = []"

lemma ends_last_seen:
  assumes "ends self script rest w how r w'" and "last_seen w = Some u"
  shows "last_seen w' = Some (fold_max u (saved how rest))"
  using assms by (cases how) (auto simp: last_seen_def dest: update_advance)

lemma saved_was_executed:
  assumes "handled self script pre w rs w1" and "ends self script rest w1 how r w'"
    and "m \<in> set (pre @ saved how rest)"
  shows "was_executed self script (pre @ rest) w m"
proof (cases "m \<in> set pre")
  case True
  with assms(1) show ?thesis by (rule handled_was_executed)
next
  case False
  with assms(3) obtain e where how: "how = SaveFailed e" and "m \<in> set (take 1 rest)"
    by (cases how) auto
  with assms(2) obtain msgs actions w2 where "rest = m # msgs"
    and "evaluate (mp_engine self) script m = Inr actions"
    and "execute (executor self) m actions (fst w1) = (Inr (), w2)"
    by auto
  with assms(1) show ?thesis by (intro was_executedI) simp_all
qed

lemma was_executed_take:
  "was_executed self script (take n msgs) w m \<Longrightarrow> was_executed self script msgs w m"
proof -
  assume "was_executed self script (take n msgs) w m"
  then obtain pre rest rs w1 actions w2 where split: "take n msgs = pre @ m # rest"
    and *: "handled self script pre w rs w1" "evaluate (mp_engine self) script m = Inr actions"
      "execute (executor self) m actions (fst w1) = (Inr (), w2)"
    unfolding was_executed_def by blast
  have "msgs = pre @ m # rest @ drop n msgs"
    using append_take_drop_id [of n msgs] split by simp
  then show ?thesis using * by (rule was_executedI)
qed

lemma run_batch_shape:
  assumes "run_batch self w = (r, w')" and "last_seen w = Some u"
    and "fetch_uid_range (mp_imap self) (mp_mailbox self) (u + 1)
           (if cap_condstore (mp_caps self) then st_highestmodseq (ss_state (fst (snd w))) else None)
           (fst w) = (Inr messages, w0)"
  shows "\<exists>pre rest rs w1 how r1. take (unat (mp_batch_size self)) messages = pre @ rest \<and>
           handled self (mp_current self w0) pre (w0, snd w) rs w1 \<and>
           ends self (mp_current self w0) rest w1 how r1 w' \<and> r = map_ok (\<lambda>tail. rs @ tail) r1"
proof -
  from assms have "process_loop self (mp_current self w0) (take (unat (mp_batch_size self)) messages) []
      (w0, snd w) = (r, w')"
    by (simp add: run_batch_def Let_def)
  from process_loop_shape [OF this] show ?thesis by simp
qed

lemma sorted_executed:
  assumes "sorted_wrt (<) (map msg_uid (pre @ rest))" and "m \<in> set (pre @ rest)"
    and "p \<in> set pre" and "msg_uid m \<le> msg_uid p"
  shows "m \<in> set pre"
proof (rule ccontr)
  assume "m \<notin> set pre"
  with assms have "msg_uid p < msg_uid m" by (auto simp: sorted_wrt_append)
  with assms(4) show False by simp
qed

lemma take_split: "take n msgs = pre @ rest \<Longrightarrow> msgs = pre @ rest @ drop n msgs"
  by (metis append.assoc append_take_drop_id)

lemma saved_split: "\<exists>rest'. rest = saved how rest @ rest'"
  by (cases how) (auto intro: exI [of _ "drop 1 rest"])

text \<open>The state file holds what is in memory.\<close>

definition synced :: "Serde \<Rightarrow> 'w world \<Rightarrow> bool" where
  "synced serde w \<longleftrightarrow>
     tmp_clean (ss_path (fst (snd w))) (snd (snd w)) \<and>
     (\<exists>b. to_vec serde (ss_state (fst (snd w))) = Inr b \<and>
          files (snd (snd w)) (ss_path (fst (snd w))) = Some b)"

lemma update_synced:
  assumes "update serde f st = (Inr (), st')" and "tmp_clean (ss_path (fst st)) (snd st)"
  shows "synced serde (w, st') \<and> ss_path (fst st') = ss_path (fst st)"
proof -
  obtain self d self' d' where st: "st = (self, d)" "st' = (self', d')" by (cases st; cases st') blast
  note u = update_cases [OF assms(1) [unfolded st] tmp_clean_fresh]
  have c: "tmp_clean (ss_path self) d'"
    using update_clean [of st serde f] assms by (simp add: st)
  from assms(2) st u c show ?thesis by (auto simp: synced_def)
qed

lemma handled_synced:
  "handled self script msgs w rs w' \<Longrightarrow> synced (mp_serde self) w \<Longrightarrow> synced (mp_serde self) w'"
proof (induction rule: handled.induct)
  case (message msg actions w w' st st' msgs rs w'')
  then show ?case by (auto simp: synced_def dest: update_synced [where w = w'])
qed

text \<open>The messages of a batch that come with an \<open>Ok\<close> result, and what the batch records of them.\<close>

definition ok_count :: "ProcessingResult list \<Rightarrow> nat" where
  "ok_count rs = length (takeWhile (\<lambda>r. pr_status r = Ok) rs)"

lemma ok_count_all: "\<forall>r \<in> set rs. pr_status r = Ok \<Longrightarrow> ok_count (rs @ ts) = length rs + ok_count ts"
  by (simp add: ok_count_def)

lemma ends_Inr:
  assumes "ends self script rest w how (Inr ts) w'"
  shows "length ts \<le> 1" and "length ts \<le> length rest"
    and "map pr_uid ts = take (length ts) (map msg_uid rest)"
    and "ok_count ts = 0" and "saved how rest = []"
    and "ts = [] \<Longrightarrow> rest = []" and "snd w' = snd w"
  using assms by (cases how; auto simp: ok_count_def)+

lemma run_batch_results:
  assumes "run_batch self w = (Inr results, w')" and "last_seen w = Some u"
    and "fetch_uid_range (mp_imap self) (mp_mailbox self) (u + 1)
           (if cap_condstore (mp_caps self) then st_highestmodseq (ss_state (fst (snd w))) else None)
           (fst w) = (Inr messages, w0)"
  shows "length results \<le> unat (mp_batch_size self) \<and>
         map pr_uid results = take (length results) (map msg_uid messages) \<and>
         (\<forall>r \<in> set (butlast results). pr_status r = Ok) \<and>
         ((\<forall>r \<in> set results. pr_status r = Ok) \<longrightarrow>
            length results = min (unat (mp_batch_size self)) (length messages)) \<and>
         last_seen w' = Some (fold_max u (take (ok_count results) messages))"
proof -
  let ?n = "unat (mp_batch_size self)"
  from run_batch_shape [OF assms(1-3)] obtain pre rest rs w1 how ts where
    split: "take ?n messages = pre @ rest"
    and h: "handled self (mp_current self w0) pre (w0, snd w) rs w1"
    and e: "ends self (mp_current self w0) rest w1 how (Inr ts) w'" and res: "results = rs @ ts"
    by (auto simp: map_ok_eq)
  note hl = handled_length [OF h] and hr = handled_results [OF h] and E = ends_Inr [OF e]
  have len: "length (pre @ rest) = min ?n (length messages)"
    by (metis length_take min.commute split)
  have ok: "ok_count results = length pre"
    using ok_count_all [of rs ts] hr hl E(4) res by simp
  have pre: "take (length pre) messages = pre"
    using take_split [OF split] by (metis append_eq_conv_conj)
  have "map pr_uid results = take (length results) (map msg_uid (pre @ rest))"
    using hr E(3) hl by (simp add: res)
  then have uids: "map pr_uid results = take (length results) (map msg_uid messages)"
  proof -
    obtain tail where "messages = pre @ rest @ tail" using take_split [OF split] by blast
    with E(2) hl \<open>map pr_uid results = _\<close> show ?thesis by (simp add: res)
  qed
  have bl: "\<forall>r \<in> set (butlast results). pr_status r = Ok"
    using hr E(1) by (cases ts) (auto simp: res butlast_append dest: in_set_butlastD)
  have all: "(\<forall>r \<in> set results. pr_status r = Ok) \<longrightarrow> length results = min ?n (length messages)"
  proof
    assume "\<forall>r \<in> set results. pr_status r = Ok"
    then have "ts = []" using E(4) by (cases ts) (auto simp: res ok_count_def)
    then show "length results = min ?n (length messages)" using E(6) hl len by (simp add: res)
  qed
  have "last_seen (w0, snd w) = Some u" using assms(2) by (simp add: last_seen_def)
  from handled_last_seen [OF h this] have "last_seen w1 = Some (fold_max u pre)" .
  from ends_last_seen [OF e this] have "last_seen w' = Some (fold_max u pre)" by (simp add: E(5))
  then show ?thesis
    using bl all uids E(2) hl len pre ok by (simp add: res)
qed

section \<open>Properties\<close>

text \<open>
  C1. Messages are handled at least once. However a batch ends, a fetched message whose UID the
  batch has moved the recorded \<open>last_seen_uid\<close> to or past has been evaluated, and its actions
  executed without error, in its turn. The server must list the messages by ascending UID: the
  record is one number, so with any other order a later failure could leave a message behind it.
\<close>

theorem at_least_once:
  assumes "run_batch self w = (r, w')" and "last_seen w = Some u"
    and "fetch_uid_range (mp_imap self) (mp_mailbox self) (u + 1)
           (if cap_condstore (mp_caps self) then st_highestmodseq (ss_state (fst (snd w))) else None)
           (fst w) = (Inr messages, w0)"
    and "sorted_wrt (<) (map msg_uid messages)"
    and "m \<in> set messages" and "u < msg_uid m"
    and "last_seen w' = Some u'" and "msg_uid m \<le> u'"
  shows "was_executed self (mp_current self w0) messages (w0, snd w) m"
proof -
  let ?s = "mp_current self w0"
  from run_batch_shape [OF assms(1-3)] obtain pre rest rs w1 how r1 where
    split: "take (unat (mp_batch_size self)) messages = pre @ rest"
    and h: "handled self ?s pre (w0, snd w) rs w1" and e: "ends self ?s rest w1 how r1 w'" by blast
  from saved_split [of rest how] obtain rest' where rest: "rest = saved how rest @ rest'" by blast
  have all: "messages = (pre @ saved how rest) @ rest' @ drop (unat (mp_batch_size self)) messages"
    using take_split [OF split] rest by (metis append.assoc)
  have "last_seen (w0, snd w) = Some u" using assms(2) by (simp add: last_seen_def)
  from handled_last_seen [OF h this] have "last_seen w1 = Some (fold_max u pre)" .
  from ends_last_seen [OF e this] assms(7)
  have "u' = fold_max u (pre @ saved how rest)" by (simp add: fold_max_def)
  with assms(6,8) obtain p where "p \<in> set (pre @ saved how rest)" and "msg_uid m \<le> msg_uid p"
    using le_fold_max [of "msg_uid m" u "pre @ saved how rest"] by auto
  then have "m \<in> set (pre @ saved how rest)"
    using sorted_executed [of "pre @ saved how rest" _ m p] assms(4,5) all by metis
  from saved_was_executed [OF h e this] show ?thesis
    unfolding split [symmetric] by (rule was_executed_take)
qed

definition sample_processor :: "(FakeImap, string) MessageProcessor" where
  "sample_processor =
     \<lparr>mp_engine = sample_engine, mp_current = (\<lambda>_. ''keep;''), mp_imap = fake_imap, mp_smtp = None,
      mp_caps = fk_caps new_FakeImap, mp_mailbox = ''INBOX'', mp_batch_size = 10,
      mp_stamp = (\<lambda>w. (([], []), w)), mp_serde = sample_serde\<rparr>"

definition sample_world :: "FakeImap world" where
  "sample_world = (sample_fake [sample_msg 5, sample_msg 8], sample_store 4, sample_disk)"

lemma sample_batch:
  "last_seen (snd (run_batch sample_processor sample_world)) = Some 8"
  "fst (run_batch sample_processor sample_world) =
     Inr [\<lparr>pr_uid = 5, pr_actions = [Keep], pr_status = Ok\<rparr>, \<lparr>pr_uid = 8, pr_actions = [Keep], pr_status = Ok\<rparr>]"
  "fetch_uid_range (mp_imap sample_processor) (mp_mailbox sample_processor) 5 None (fst sample_world) =
     (Inr [sample_msg 5, sample_msg 8], sample_fake [])"
  "last_seen sample_world = Some 4"
  by code_simp
     (code_simp, simp_all add: sample_processor_def sample_world_def sample_defs fake_imap_def
        new_FakeImap_def last_seen_def)

theorem at_least_once_witness:
  "was_executed sample_processor ''keep;'' [sample_msg 5, sample_msg 8]
     (sample_fake [], snd sample_world) (sample_msg 5)"
proof -
  have c: "\<not> cap_condstore (mp_caps sample_processor)" "mp_current sample_processor w = ''keep;''" for w
    by (simp_all add: sample_processor_def new_FakeImap_def)
  show ?thesis
    using at_least_once [of sample_processor sample_world _ "snd (run_batch sample_processor sample_world)",
        OF prod.collapse [symmetric] sample_batch(4) _ _ _ _ sample_batch(1),
        of "[sample_msg 5, sample_msg 8]" "sample_fake []" "sample_msg 5"] sample_batch(3)
    by (simp add: c) (simp add: sample_msg_def)
qed

text \<open>
  C7. The results of a batch that returns: at most \<open>batch_size\<close> of them; they are about the
  first fetched messages, in the order fetched; every one but possibly the last is \<open>Ok\<close>, since the
  first failure stops the batch; the batch stops early for no other reason; and the recorded UID
  becomes the greatest of the old one and the UIDs of the \<open>Ok\<close> messages, and of no others.
\<close>

theorem batch_results:
  assumes "run_batch self w = (Inr results, w')" and "last_seen w = Some u"
    and "fetch_uid_range (mp_imap self) (mp_mailbox self) (u + 1)
           (if cap_condstore (mp_caps self) then st_highestmodseq (ss_state (fst (snd w))) else None)
           (fst w) = (Inr messages, w0)"
  shows "length results \<le> unat (mp_batch_size self) \<and>
         map pr_uid results = take (length results) (map msg_uid messages) \<and>
         (\<forall>r \<in> set (butlast results). pr_status r = Ok) \<and>
         ((\<forall>r \<in> set results. pr_status r = Ok) \<longrightarrow>
            length results = min (unat (mp_batch_size self)) (length messages)) \<and>
         last_seen w' = Some (fold_max u (take (ok_count results) messages))"
  using assms by (rule run_batch_results)

theorem batch_results_witness:
  "last_seen (snd (run_batch sample_processor sample_world)) =
     Some (fold_max 4 (take 2 [sample_msg 5, sample_msg 8]))"
proof -
  have c: "\<not> cap_condstore (mp_caps sample_processor)"
    by (simp add: sample_processor_def new_FakeImap_def)
  let ?rs = "[\<lparr>pr_uid = 5, pr_actions = [Keep], pr_status = Ok\<rparr>, \<lparr>pr_uid = 8, pr_actions = [Keep], pr_status = Ok\<rparr>]"
  have "run_batch sample_processor sample_world = (Inr ?rs, snd (run_batch sample_processor sample_world))"
    using sample_batch(2) by (metis prod.collapse)
  from batch_results [OF this sample_batch(4), of "[sample_msg 5, sample_msg 8]" "sample_fake []"]
  have "last_seen (snd (run_batch sample_processor sample_world)) =
     Some (fold_max 4 (take (ok_count ?rs) [sample_msg 5, sample_msg 8]))"
    using sample_batch(3) c by simp
  then show ?thesis by (simp add: ok_count_def numeral_2_eq_2)
qed

text \<open>
  What a batch records is on disk when it returns: if the state file held the state in memory
  before, and no file is in the way of a temporary one, then it does so afterwards, whether the
  batch ends normally or with a failed message.
\<close>

theorem batch_durable:
  assumes "run_batch self w = (Inr results, w')" and "synced (mp_serde self) w"
  shows "synced (mp_serde self) w'"
proof -
  from assms(1) obtain u where u: "last_seen w = Some u"
    by (auto simp: run_batch_def split: option.splits)
  with assms(1) obtain messages w0 where
    f: "fetch_uid_range (mp_imap self) (mp_mailbox self) (u + 1)
          (if cap_condstore (mp_caps self) then st_highestmodseq (ss_state (fst (snd w))) else None)
          (fst w) = (Inr messages, w0)"
    by (auto simp: run_batch_def Let_def split: prod.splits sum.splits)
  from run_batch_shape [OF assms(1) u f] obtain pre rest rs w1 how ts where
    h: "handled self (mp_current self w0) pre (w0, snd w) rs w1"
    and e: "ends self (mp_current self w0) rest w1 how (Inr ts) w'"
    by (auto simp: map_ok_eq)
  have "synced (mp_serde self) (w0, snd w)" using assms(2) by (simp add: synced_def)
  from handled_synced [OF h this] ends_Inr(7) [OF e] show ?thesis by (simp add: synced_def)
qed

theorem batch_durable_witness:
  "synced sample_serde
     (snd (run_batch sample_processor
        (fst sample_world, sample_store 4, sample_disk\<lparr>files := [''/s/state.json'' \<mapsto> [char_of (4::nat)]]\<rparr>)))"
proof -
  let ?w = "(fst sample_world, sample_store 4, sample_disk\<lparr>files := [''/s/state.json'' \<mapsto> [char_of (4::nat)]]\<rparr>)"
  have "tmp_clean ''/s/state.json'' (snd (snd ?w))"
    using tmp_clean_files [OF tmp_clean_sample, of "snd (snd ?w)"]
    by (simp add: sample_disk_def)
  then have "synced (mp_serde sample_processor) ?w"
    by (simp add: synced_def sample_processor_def sample_defs)
  moreover have "isl (fst (run_batch sample_processor ?w)) = False" by code_simp
  ultimately have "synced (mp_serde sample_processor) (snd (run_batch sample_processor ?w))"
    using batch_durable [of sample_processor ?w]
    by (cases "fst (run_batch sample_processor ?w)"; cases "run_batch sample_processor ?w") simp_all
  then show ?thesis by (simp add: sample_processor_def)
qed

end
