(* ===== verification/F64.thy ===== *)
theory F64
  imports Complex_Main "HOL-Library.Log_Nat" Prelude
begin

text \<open>
  IEEE 754 binary64 as the back-off computation uses it: finite values are rational numbers on
  the binary64 grid, every arithmetic operation is the exact one followed by rounding to the
  nearest grid point, ties to even, with gradual underflow. The computation never leaves the
  finite range (its largest value is below \<open>2^130\<close>), so overflow to infinity is not modelled;
  infinities and NaN exist as values because a configuration file can contain them.
\<close>

datatype f64 = Fin rat | PosInf | NegInf | NaN

section \<open>Round half to even\<close>

definition round_even :: "rat \<Rightarrow> int" where
  "round_even x =
     (let f = \<lfloor>x\<rfloor>; d = x - of_int f in
      if d < 1 / 2 then f else if 1 / 2 < d then f + 1 else if even f then f else f + 1)"

lemma round_even_of_int [simp]: "round_even (of_int n) = n"
  by (simp add: round_even_def)

lemma round_even_floor: "\<lfloor>x\<rfloor> \<le> round_even x" and round_even_ceiling: "round_even x \<le> \<lfloor>x\<rfloor> + 1"
  by (simp_all add: round_even_def Let_def)

lemma round_even_mono: "x \<le> y \<Longrightarrow> round_even x \<le> round_even y"
proof (cases "\<lfloor>x\<rfloor> = \<lfloor>y\<rfloor>")
  case True
  assume "x \<le> y"
  then have "x - of_int \<lfloor>y\<rfloor> \<le> y - of_int \<lfloor>y\<rfloor>" by simp
  then show ?thesis unfolding round_even_def Let_def True by auto
next
  case False
  assume "x \<le> y"
  with False have "\<lfloor>x\<rfloor> + 1 \<le> \<lfloor>y\<rfloor>" using floor_mono [of x y] by linarith
  then show ?thesis using round_even_ceiling [of x] round_even_floor [of y] by linarith
qed

section \<open>The binary exponent of a positive number\<close>

definition exponent :: "rat \<Rightarrow> int" where
  "exponent x =
     (if 1 \<le> x then int (floorlog 2 (nat \<lfloor>x\<rfloor>)) - 1
      else - int (floorlog 2 (nat (\<lceil>1 / x\<rceil> - 1))))"

lemma floorlog2_bounds:
  assumes "0 < n"
  shows "(2::nat) ^ (floorlog 2 n - 1) \<le> n" and "n < 2 ^ floorlog 2 n" and "0 < floorlog 2 n"
proof -
  show "(2::nat) ^ (floorlog 2 n - 1) \<le> n" and lt: "n < 2 ^ floorlog 2 n"
    using assms floorlog_bounds [of n 2] by auto
  show "0 < floorlog 2 n"
    using lt assms by (cases "floorlog 2 n") auto
qed

lemma powi_nat: "2 powi int n = (2::rat) ^ n"
  by simp

lemma exponent_bounds:
  assumes "0 < x"
  shows "2 powi exponent x \<le> x" and "x < 2 powi (exponent x + 1)"
proof -
  have "2 powi exponent x \<le> x \<and> x < 2 powi (exponent x + 1)"
  proof (cases "1 \<le> x")
    case True
    let ?n = "nat \<lfloor>x\<rfloor>" and ?k = "floorlog 2 (nat \<lfloor>x\<rfloor>)"
    have "0 < ?n" using True by simp
    note b = floorlog2_bounds [OF this]
    have "2 powi (int ?k - 1) = (2::rat) ^ (?k - 1)"
      using b(3) by (metis of_nat_1 of_nat_diff powi_nat Suc_le_eq One_nat_def)
    also have "\<dots> = of_nat (2 ^ (?k - 1))" by simp
    also have "\<dots> \<le> of_nat ?n" using b(1) by (simp only: of_nat_le_iff)
    also have "\<dots> \<le> x" using True by (simp add: of_nat_nat)
    finally have lo: "2 powi (int ?k - 1) \<le> x" .
    have "Suc ?n \<le> 2 ^ ?k" using b(2) by (simp only: Suc_le_eq)
    then have "of_nat (Suc ?n) \<le> (of_nat (2 ^ ?k) :: rat)" by (simp only: of_nat_le_iff)
    moreover have "x < of_nat (Suc ?n)" using True by (simp add: of_nat_nat) linarith
    ultimately have "x < 2 powi int ?k" by simp
    with lo True show ?thesis by (simp add: exponent_def)
  next
    case False
    let ?y = "1 / x"
    let ?n = "nat (\<lceil>?y\<rceil> - 1)" and ?k = "floorlog 2 (nat (\<lceil>1 / x\<rceil> - 1))"
    have y: "1 < ?y" using False assms by simp
    then have c: "1 < \<lceil>?y\<rceil>" by linarith
    then have n: "0 < ?n" by linarith
    have ny: "of_nat ?n = (of_int (\<lceil>?y\<rceil> - 1) :: rat)"
      by (rule of_nat_nat) (use c in linarith)
    note b = floorlog2_bounds [OF n]
    have "Suc ?n \<le> 2 ^ ?k" using b(2) by (simp only: Suc_le_eq)
    then have le: "of_nat (Suc ?n) \<le> (of_nat (2 ^ ?k) :: rat)" by (simp only: of_nat_le_iff)
    have "?y \<le> of_int \<lceil>?y\<rceil>" by (rule le_of_int_ceiling)
    also have "\<dots> = of_nat (Suc ?n)" using ny by simp
    also note le
    finally have "?y \<le> 2 ^ ?k" by simp
    then have lo: "2 powi (- int ?k) \<le> x"
      using assms by (simp add: power_int_minus field_simps)
    have "of_nat (2 ^ (?k - 1)) \<le> (of_nat ?n :: rat)" using b(1) by (simp only: of_nat_le_iff)
    then have "2 ^ (?k - 1) < ?y" using ny by simp linarith
    then have "x < 1 / 2 ^ (?k - 1)"
      using assms by (simp add: field_simps)
    also have "1 / 2 ^ (?k - 1) = (2::rat) powi (- int ?k + 1)"
    proof -
      have e: "- int ?k + 1 = - int (?k - 1)" using b(3) by linarith
      show ?thesis unfolding e by (simp add: power_int_minus divide_inverse)
    qed
    finally have "x < 2 powi (- int ?k + 1)" .
    with lo False show ?thesis by (simp add: exponent_def)
  qed
  then show "2 powi exponent x \<le> x" and "x < 2 powi (exponent x + 1)" by auto
qed

lemma powi_less_iff: "(2::rat) powi a < 2 powi b \<longleftrightarrow> a < b"
  by (metis linorder_not_less linorder_neqE_linordered_idom one_less_numeral_iff order_less_irrefl
      power_int_strict_increasing semiring_norm(76) order_less_trans)

lemma powi_le_iff: "(2::rat) powi a \<le> 2 powi b \<longleftrightarrow> a \<le> b"
  by (metis linorder_not_less powi_less_iff)

lemma exponent_mono:
  assumes "0 < x" and "x \<le> y"
  shows "exponent x \<le> exponent y"
proof -
  have "(2::rat) powi exponent x < 2 powi (exponent y + 1)"
    using exponent_bounds [of x] exponent_bounds [of y] assms by linarith
  then show ?thesis by (simp add: powi_less_iff)
qed

section \<open>Rounding to binary64\<close>

definition quantum :: "rat \<Rightarrow> int" where
  "quantum x = max (exponent x - 52) (- 1074)"

definition round_pos :: "rat \<Rightarrow> rat" where
  "round_pos x = of_int (round_even (x / 2 powi quantum x)) * 2 powi quantum x"

definition rnd :: "rat \<Rightarrow> rat" where
  "rnd x = (if x = 0 then 0 else if 0 < x then round_pos x else - round_pos (- x))"

lemma powi_pos [simp]: "(0::rat) < 2 powi k" "(2::rat) powi k \<noteq> 0"
  by (simp_all add: zero_less_power_int)

lemma powi_diff: "(2::rat) powi a / 2 powi b = 2 powi (a - b)"
  by (simp add: power_int_diff)

text \<open>A multiple of its own quantum is on the grid.\<close>

lemma round_pos_grid:
  assumes "x = of_int m * 2 powi k" and "quantum x \<le> k"
  shows "round_pos x = x"
proof -
  have "x / 2 powi quantum x = of_int m * 2 powi (k - quantum x)"
    using assms(1) by (simp add: power_int_diff)
  also have "2 powi (k - quantum x) = (of_int (2 ^ nat (k - quantum x)) :: rat)"
    using assms(2) by (simp add: power_int_def)
  finally have "x / 2 powi quantum x = of_int (m * 2 ^ nat (k - quantum x))" by simp
  then have "of_int (round_even (x / 2 powi quantum x)) = x / 2 powi quantum x"
    by (metis round_even_of_int)
  then show ?thesis by (simp add: round_pos_def)
qed

lemma round_pos_mono:
  assumes "0 < x" and "x \<le> y"
  shows "round_pos x \<le> round_pos y"
proof (cases "quantum x = quantum y")
  case True
  have "x / 2 powi quantum y \<le> y / 2 powi quantum y"
    using assms by (simp add: divide_right_mono)
  then show ?thesis
    unfolding round_pos_def True using round_even_mono by (simp add: mult_right_mono)
next
  case False
  let ?q = "quantum x" and ?r = "quantum y" and ?e = "exponent y"
  have e: "exponent x \<le> ?e" using assms by (rule exponent_mono)
  with False have r: "?r = ?e - 52" and lt: "exponent x < ?e" and qe: "?q \<le> ?e"
    by (auto simp: quantum_def max_def split: if_splits)
  have "x \<le> 2 powi ?e"
    using exponent_bounds(2) [OF assms(1)] lt powi_le_iff [of "exponent x + 1" ?e] by linarith
  then have "x / 2 powi ?q \<le> 2 powi (?e - ?q)"
    by (simp add: divide_right_mono flip: powi_diff)
  also have "2 powi (?e - ?q) = (of_int (2 ^ nat (?e - ?q)) :: rat)"
    using qe by (simp add: power_int_def)
  finally have "round_even (x / 2 powi ?q) \<le> 2 ^ nat (?e - ?q)"
    using round_even_mono round_even_of_int by metis
  then have "(of_int (round_even (x / 2 powi ?q)) :: rat) \<le> of_int (2 ^ nat (?e - ?q))"
    by (simp only: of_int_le_iff)
  then have "round_pos x \<le> of_int (2 ^ nat (?e - ?q)) * 2 powi ?q"
    unfolding round_pos_def by (rule mult_right_mono) simp
  also have "\<dots> = 2 powi (?e - ?q) * 2 powi ?q" using qe by (simp add: power_int_def)
  also have "\<dots> = 2 powi ?e" by (simp flip: power_int_add)
  also have "\<dots> = of_int (2 ^ 52) * 2 powi ?r"
    unfolding r by (simp add: power_int_diff)
  also have "\<dots> \<le> round_pos y"
  proof -
    have "of_int (2 ^ 52) * 2 powi ?r = (2::rat) powi ?e" unfolding r by (simp add: power_int_diff)
    then have "(of_int (2 ^ 52) :: rat) = 2 powi ?e / 2 powi ?r" by (simp add: field_simps)
    also have "\<dots> \<le> y / 2 powi ?r"
      using exponent_bounds(1) [of y] assms by (simp add: divide_right_mono)
    finally have "2 ^ 52 \<le> round_even (y / 2 powi ?r)"
      using round_even_mono round_even_of_int by metis
    then have "(of_int (2 ^ 52) :: rat) \<le> of_int (round_even (y / 2 powi ?r))"
      by (simp only: of_int_le_iff)
    then show ?thesis unfolding round_pos_def by (rule mult_right_mono) simp
  qed
  finally show ?thesis .
qed

lemma round_pos_nonneg: "0 < x \<Longrightarrow> 0 \<le> round_pos x"
proof -
  assume "0 < x"
  then have "(of_int 0 :: rat) \<le> x / 2 powi quantum x" by simp
  then have "0 \<le> round_even (x / 2 powi quantum x)"
    using round_even_mono round_even_of_int by metis
  then show ?thesis by (simp add: round_pos_def)
qed

lemma rnd_mono: "x \<le> y \<Longrightarrow> rnd x \<le> rnd y"
  using round_pos_mono [of x y] round_pos_mono [of "- y" "- x"] round_pos_nonneg [of y]
    round_pos_nonneg [of "- x"]
  by (auto simp: rnd_def)

text \<open>Every \<open>m * 2 ^ k\<close> with \<open>|m| \<le> 2 ^ 53\<close> in the exponent range is exact.\<close>

lemma round_pos_exact:
  assumes "x = of_int m * 2 powi k" and "0 < m" and "m \<le> 2 ^ 53" and "- 1074 \<le> k"
  shows "round_pos x = x"
proof (cases "m = 2 ^ 53")
  case True
  have "x = of_int (2 ^ 52) * 2 powi (k + 1)"
    using assms(1) by (simp add: True power_int_add)
  moreover have "x = 2 powi (k + 53)"
    using assms(1) by (simp add: True power_int_add)
  then have "2 powi exponent x \<le> (2::rat) powi (k + 53)"
    using exponent_bounds(1) [of x] by simp
  then have "quantum x \<le> k + 1"
    using assms(4) by (simp add: powi_le_iff quantum_def)
  ultimately show ?thesis by (rule round_pos_grid)
next
  case False
  have x: "0 < x" using assms(1,2) by simp
  have "of_int m < (of_int (2 ^ 53) :: rat)"
    using False assms(3) by (simp only: of_int_less_iff)
  then have "x < 2 ^ 53 * 2 powi k"
    using assms(1) by (simp add: mult_strict_right_mono)
  also have "2 ^ 53 * 2 powi k = (2::rat) powi (k + 53)" by (simp add: power_int_add)
  finally have "2 powi exponent x < (2::rat) powi (k + 53)"
    using exponent_bounds(1) [OF x] by linarith
  then have "quantum x \<le> k" using assms(4) by (simp add: powi_less_iff quantum_def)
  with assms(1) show ?thesis by (rule round_pos_grid)
qed

lemma rnd_exact:
  assumes "x = of_int m * 2 powi k" and "\<bar>m\<bar> \<le> 2 ^ 53" and "- 1074 \<le> k"
  shows "rnd x = x"
proof -
  consider "m = 0" | "0 < m" | "m < 0" by linarith
  then show ?thesis
  proof cases
    case 1
    with assms show ?thesis by (simp add: rnd_def)
  next
    case 2
    with assms round_pos_exact [of x m k] show ?thesis by (simp add: rnd_def)
  next
    case 3
    then have "round_pos (- x) = - x"
      using assms by (intro round_pos_exact [of _ "- m" k]) auto
    moreover have "x < 0" using 3 assms(1) by (simp add: mult_neg_pos)
    ultimately show ?thesis by (simp add: rnd_def)
  qed
qed

lemma rnd_of_int: "\<bar>n\<bar> \<le> 2 ^ 53 \<Longrightarrow> rnd (of_int n) = of_int n"
  using rnd_exact [of "of_int n" n 0] by simp

section \<open>What the back-off relies on, as an interface\<close>

text \<open>
  The laws of a rounding function that the bounds on the delay need: it is monotone and exact
  on small multiples of a half.
\<close>

locale rounding =
  fixes fl :: "rat \<Rightarrow> rat"
  assumes fl_mono: "x \<le> y \<Longrightarrow> fl x \<le> fl y"
    and fl_half: "\<bar>m\<bar> \<le> 2 ^ 53 \<Longrightarrow> fl (of_int m / 2) = of_int m / 2"
begin

lemma fl_int: "\<bar>n\<bar> \<le> 2 ^ 52 \<Longrightarrow> fl (of_int n) = of_int n"
  using fl_half [of "2 * n"] by simp

lemma fl_0: "fl 0 = 0" and fl_1: "fl 1 = 1"
  using fl_int [of 0] fl_int [of 1] by simp_all

lemma fl_between:
  "of_int a / 2 \<le> x \<Longrightarrow> x \<le> of_int b / 2 \<Longrightarrow> \<bar>a\<bar> \<le> 2 ^ 53 \<Longrightarrow> \<bar>b\<bar> \<le> 2 ^ 53 \<Longrightarrow>
     of_int a / 2 \<le> fl x \<and> fl x \<le> of_int b / 2"
  using fl_mono [of "of_int a / 2" x] fl_mono [of x "of_int b / 2"] by (simp add: fl_half)

end

interpretation f64: rounding rnd
proof
  show "x \<le> y \<Longrightarrow> rnd x \<le> rnd y" for x y
    by (rule rnd_mono)
  show "rnd (of_int m / 2) = of_int m / 2" if "\<bar>m\<bar> \<le> 2 ^ 53" for m
    using that by (intro rnd_exact [of _ m "- 1"]) (simp_all add: power_int_minus)
qed

end
