(* ===== verification/Backoff.thy ===== *)
theory Backoff
  imports F64
begin

text \<open>
  \<open>session.rs\<close>, the back-off: \<open>BackoffConfig\<close>, \<open>Backoff\<close> and \<open>next_delay\<close>. A \<open>Duration\<close> is a
  number of nanoseconds; \<open>u32\<close> and \<open>u128\<close> saturate as written; \<open>f64\<close> arithmetic rounds (theory
  \<open>F64\<close>). The random number generator is a parameter: \<open>gen_range g hi\<close> is the value drawn from
  \<open>0.0..=hi\<close> and the generator after it. \<open>gen_range\<close> panics on a range that is empty or not
  finite, and so does \<open>next_delay\<close>, whose result is then \<open>None\<close>.
\<close>

type_synonym Duration = nat

definition from_secs :: "u64 \<Rightarrow> Duration" where
  "from_secs s = unat s * 1000000000"

definition from_millis :: "u64 \<Rightarrow> Duration" where
  "from_millis ms = unat ms * 1000000"

definition as_millis :: "Duration \<Rightarrow> nat" where
  "as_millis d = d div 1000000"

record BackoffConfig =
  bc_initial :: Duration
  bc_max :: Duration
  bc_jitter :: f64

record Backoff =
  bo_cfg :: BackoffConfig
  bo_attempt :: u32

definition new_Backoff :: "BackoffConfig \<Rightarrow> Backoff" where
  "new_Backoff cfg = \<lparr>bo_cfg = cfg, bo_attempt = 0\<rparr>"

definition reset :: "Backoff \<Rightarrow> Backoff" where
  "reset self = self\<lparr>bo_attempt := 0\<rparr>"

text \<open>\<open>2u32.saturating_pow(n)\<close>, \<open>u128::saturating_mul\<close>, and the saturating cast \<open>f64 as u64\<close>.\<close>

definition saturating_pow2 :: "u32 \<Rightarrow> nat" where
  "saturating_pow2 n = min (2 ^ unat n) (2 ^ 32 - 1)"

definition saturating_mul128 :: "nat \<Rightarrow> nat \<Rightarrow> nat" where
  "saturating_mul128 a b = min (a * b) (2 ^ 128 - 1)"

definition f64_as_u64 :: "rat \<Rightarrow> u64" where
  "f64_as_u64 x = word_of_int (min \<lfloor>max 0 x\<rfloor> (2 ^ 64 - 1))"

type_synonym 'g rng = "'g \<Rightarrow> rat \<Rightarrow> rat \<times> 'g"

definition capped :: "Backoff \<Rightarrow> nat" where
  "capped self =
     min (saturating_mul128 (as_millis (bc_initial (bo_cfg self))) (saturating_pow2 (bo_attempt self)))
         (as_millis (bc_max (bo_cfg self)))"

definition jitter_factor :: "rat \<Rightarrow> rat \<Rightarrow> rat" where
  "jitter_factor j x = rnd (rnd (1 - rnd (j / 2)) + x)"

definition jittered :: "Backoff \<Rightarrow> rat \<Rightarrow> rat" where
  "jittered self factor =
     min (rnd (rnd (of_nat (capped self)) * factor)) (rnd (of_nat (as_millis (bc_max (bo_cfg self)))))"

definition next_delay :: "'g rng \<Rightarrow> Backoff \<Rightarrow> 'g \<Rightarrow> (Duration \<times> Backoff \<times> 'g) option" where
  "next_delay gen_range self g =
     (case bc_jitter (bo_cfg self) of
        Fin j \<Rightarrow>
          if j < 0 then None
          else (case gen_range g j of
                  (x, g') \<Rightarrow>
                    Some (from_millis (f64_as_u64 (jittered self (jitter_factor j x))),
                          self\<lparr>bo_attempt := saturating_add (bo_attempt self) 1\<rparr>, g'))
      | _ \<Rightarrow> None)"

section \<open>Bounds\<close>

lemma capped_le_max: "capped self \<le> as_millis (bc_max (bo_cfg self))"
  by (simp add: capped_def)

lemma as_from_millis [simp]: "as_millis (from_millis ms) = unat ms"
  by (simp add: as_millis_def from_millis_def)

lemma unat_f64_as_u64:
  assumes "0 \<le> x" and "x < 2 ^ 64"
  shows "unat (f64_as_u64 x) = nat \<lfloor>x\<rfloor>"
proof -
  have "\<lfloor>x\<rfloor> < 2 ^ 64" using assms(2) by (simp add: floor_less_iff)
  with assms(1) show ?thesis
    by (simp add: f64_as_u64_def unat_eq_nat_uint uint_word_of_int take_bit_int_eq_self)
qed

text \<open>
  For a jitter in \<open>[0, 1]\<close> and a number drawn from \<open>[0, jitter]\<close>, the factor is between a half and
  two; it is exactly one without jitter.
\<close>

lemma jitter_factor_bounds:
  assumes "0 \<le> j" and "j \<le> 1" and "0 \<le> x" and "x \<le> j"
  shows "1 / 2 \<le> jitter_factor j x" and "jitter_factor j x \<le> 2"
proof -
  have h: "0 \<le> rnd (j / 2) \<and> rnd (j / 2) \<le> 1 / 2"
    using f64.fl_between [of 0 "j / 2" 1] assms by simp
  have s: "1 / 2 \<le> rnd (1 - rnd (j / 2)) \<and> rnd (1 - rnd (j / 2)) \<le> 1"
    using f64.fl_between [of 1 "1 - rnd (j / 2)" 2] h by simp
  have "1 / 2 \<le> rnd (rnd (1 - rnd (j / 2)) + x) \<and> rnd (rnd (1 - rnd (j / 2)) + x) \<le> 2"
    using f64.fl_between [of 1 "rnd (1 - rnd (j / 2)) + x" 4] s assms by simp
  then show "1 / 2 \<le> jitter_factor j x" and "jitter_factor j x \<le> 2"
    by (auto simp: jitter_factor_def)
qed

lemma jitter_factor_0 [simp]: "jitter_factor 0 0 = 1"
  by (simp add: jitter_factor_def f64.fl_0 f64.fl_1)

lemma jittered_bounds:
  assumes "1 / 2 \<le> f" and "f \<le> 2" and "as_millis (bc_max (bo_cfg self)) \<le> 2 ^ 51"
  shows "of_nat (capped self) / 2 \<le> jittered self f"
    and "jittered self f \<le> of_nat (min (2 * capped self) (as_millis (bc_max (bo_cfg self))))"
proof -
  let ?c = "capped self" and ?m = "as_millis (bc_max (bo_cfg self))"
  have c: "?c \<le> ?m" by (rule capped_le_max)
  have rc: "rnd (of_nat ?c) = of_nat ?c" and rm: "rnd (of_nat ?m) = of_nat ?m"
    using f64.fl_int [of "int ?c"] f64.fl_int [of "int ?m"] c assms(3) by simp_all
  have lo: "of_nat ?c / 2 \<le> of_nat ?c * f" and hi: "of_nat ?c * f \<le> of_nat (2 * ?c)"
    using assms(1,2) mult_left_mono [of "1 / 2" f "of_nat ?c"] mult_left_mono [of f 2 "of_nat ?c"]
    by simp_all
  have b: "of_nat ?c / 2 \<le> rnd (of_nat ?c * f) \<and> rnd (of_nat ?c * f) \<le> of_nat (2 * ?c)"
    using f64.fl_between [of "int ?c" "of_nat ?c * f" "int (4 * ?c)"] lo hi c assms(3) by simp
  have "of_nat ?c / 2 \<le> (of_nat ?m :: rat)"
  proof -
    have "of_nat ?c / 2 \<le> (of_nat ?c :: rat)" by simp
    also have "\<dots> \<le> of_nat ?m" using c by simp
    finally show ?thesis .
  qed
  with b rm rc show "of_nat ?c / 2 \<le> jittered self f"
    by (simp add: jittered_def)
  show "jittered self f \<le> of_nat (min (2 * ?c) ?m)"
    using b rm rc by (auto simp: jittered_def min_le_iff_disj of_nat_min)
qed

lemma next_delay_bounds:
  assumes "bc_jitter (bo_cfg self) = Fin j" and "0 \<le> j" and "j \<le> 1"
    and "gen_range g j = (x, g')" and "0 \<le> x" and "x \<le> j"
    and "as_millis (bc_max (bo_cfg self)) \<le> 2 ^ 51"
  shows "\<exists>d. next_delay gen_range self g =
             Some (d, self\<lparr>bo_attempt := saturating_add (bo_attempt self) 1\<rparr>, g') \<and>
           capped self div 2 \<le> as_millis d \<and>
           as_millis d \<le> min (2 * capped self) (as_millis (bc_max (bo_cfg self)))"
proof -
  let ?f = "jitter_factor j x" and ?u = "min (2 * capped self) (as_millis (bc_max (bo_cfg self)))"
  have f: "1 / 2 \<le> ?f" "?f \<le> 2" using jitter_factor_bounds assms(2,3,5,6) by auto
  note b = jittered_bounds [OF f assms(7)]
  have "0 \<le> of_nat (capped self) / (2::rat)" by simp
  then have nn: "0 \<le> jittered self ?f" using b(1) by (rule order_trans)
  have "of_nat ?u < (2::rat) ^ 64"
  proof -
    have "?u < 2 ^ 64" using assms(7) by (simp add: min_less_iff_disj)
    then have "of_nat ?u < (of_nat (2 ^ 64) :: rat)" by (simp only: of_nat_less_iff)
    then show ?thesis by simp
  qed
  then have "jittered self ?f < 2 ^ 64" using b(2) by linarith
  then have u: "unat (f64_as_u64 (jittered self ?f)) = nat \<lfloor>jittered self ?f\<rfloor>"
    using nn by (intro unat_f64_as_u64)
  have "capped self div 2 \<le> nat \<lfloor>jittered self ?f\<rfloor>"
  proof -
    have "(of_nat (capped self div 2) :: rat) \<le> of_nat (capped self) / 2"
      by (metis of_nat_mono of_nat_numeral of_nat_div_le_of_nat of_nat_1 of_nat_add)
    then have "of_nat (capped self div 2) \<le> jittered self ?f" using b(1) by (rule order_trans)
    then have "int (capped self div 2) \<le> \<lfloor>jittered self ?f\<rfloor>"
      by (simp only: le_floor_iff of_int_of_nat_eq)
    then show ?thesis by linarith
  qed
  moreover have "nat \<lfloor>jittered self ?f\<rfloor> \<le> ?u"
  proof -
    have "\<lfloor>jittered self ?f\<rfloor> \<le> int ?u"
      using b(2) by (simp add: floor_le_iff)
    then show ?thesis by (simp only: nat_le_iff)
  qed
  ultimately show ?thesis
    using assms(1,2,4) u by (simp add: next_delay_def)
qed

text \<open>Without jitter the delay is exactly \<open>min (initial * 2 ^ attempt) max\<close>, saturation included.\<close>

lemma next_delay_exact:
  assumes "bc_jitter (bo_cfg self) = Fin 0" and "gen_range g 0 = (0, g')"
    and "as_millis (bc_max (bo_cfg self)) \<le> 2 ^ 51"
  shows "next_delay gen_range self g =
           Some (from_millis (of_nat (capped self)),
                 self\<lparr>bo_attempt := saturating_add (bo_attempt self) 1\<rparr>, g')"
proof -
  let ?c = "capped self" and ?m = "as_millis (bc_max (bo_cfg self))"
  have c: "?c \<le> ?m" by (rule capped_le_max)
  have "rnd (of_nat ?c) = of_nat ?c" and "rnd (of_nat ?m) = of_nat ?m"
    using f64.fl_int [of "int ?c"] f64.fl_int [of "int ?m"] c assms(3) by simp_all
  with c have "jittered self 1 = of_nat ?c"
    by (simp add: jittered_def)
  moreover have "f64_as_u64 (of_nat ?c) = of_nat ?c"
    using c assms(3) by (simp add: f64_as_u64_def min_absorb1)
  ultimately show ?thesis
    using assms(1,2) by (simp add: next_delay_def)
qed

text \<open>What the capped delay is at most and at least, and its value as the attempts go on.\<close>

lemma capped_ge: "as_millis (bc_initial (bo_cfg self)) < 2 ^ 128 \<Longrightarrow>
    min (as_millis (bc_initial (bo_cfg self))) (as_millis (bc_max (bo_cfg self))) \<le> capped self"
proof -
  assume i: "as_millis (bc_initial (bo_cfg self)) < 2 ^ 128"
  have "1 \<le> saturating_pow2 (bo_attempt self)" by (simp add: saturating_pow2_def)
  then have "as_millis (bc_initial (bo_cfg self))
      \<le> as_millis (bc_initial (bo_cfg self)) * saturating_pow2 (bo_attempt self)" by simp
  with i have "as_millis (bc_initial (bo_cfg self))
      \<le> saturating_mul128 (as_millis (bc_initial (bo_cfg self))) (saturating_pow2 (bo_attempt self))"
    unfolding saturating_mul128_def by linarith
  then show ?thesis unfolding capped_def by linarith
qed

text \<open>
  A maximum below \<open>2 ^ 32\<close> milliseconds is reached before any of the saturations shows: the capped
  delay is the initial one doubled \<open>k\<close> times, for every number \<open>k\<close> of attempts.
\<close>

definition attempts :: "nat \<Rightarrow> u32" where
  "attempts k = of_nat (min k (2 ^ 32 - 1))"

lemma attempts_0 [simp]: "attempts 0 = 0"
  and attempts_Suc: "saturating_add (attempts k) 1 = attempts (Suc k)"
  and unat_attempts: "unat (attempts k) = min k (2 ^ 32 - 1)"
proof -
  show u: "unat (attempts k) = min k (2 ^ 32 - 1)" for k
    by (simp add: attempts_def unat_of_nat)
  show "saturating_add (attempts k) 1 = attempts (Suc k)"
    unfolding word_unat_eq_iff by (simp add: unat_saturating_add u)
qed (simp add: attempts_def)

lemma capped_doubles:
  assumes "bo_attempt self = attempts k"
    and "1 \<le> as_millis (bc_initial (bo_cfg self))" and "as_millis (bc_max (bo_cfg self)) < 2 ^ 32"
  shows "capped self = min (as_millis (bc_initial (bo_cfg self)) * 2 ^ k) (as_millis (bc_max (bo_cfg self)))"
proof -
  let ?i = "as_millis (bc_initial (bo_cfg self))" and ?m = "as_millis (bc_max (bo_cfg self))"
  have c: "capped self = min (?i * saturating_pow2 (attempts k)) ?m"
    using assms(1,3) by (auto simp: capped_def saturating_mul128_def)
  show ?thesis
  proof (cases "k < 32")
    case True
    then have "(2::nat) ^ k \<le> 2 ^ 31" by (intro power_increasing) simp_all
    with True c show ?thesis by (simp add: saturating_pow2_def unat_attempts)
  next
    case False
    then have "(2::nat) ^ 32 \<le> 2 ^ k" by (intro power_increasing) simp_all
    moreover have "(2::nat) ^ 32 \<le> 2 ^ min k (2 ^ 32 - 1)"
      using False by (intro power_increasing) simp_all
    then have "saturating_pow2 (attempts k) = 2 ^ 32 - 1"
      unfolding saturating_pow2_def unat_attempts by linarith
    moreover have "a \<le> ?i * a" for a using assms(2) by simp
    ultimately have "?m \<le> ?i * 2 ^ k" and "?m \<le> ?i * saturating_pow2 (attempts k)"
      using assms(3) by (metis le_trans less_imp_le_nat, metis Suc_pred' le_trans less_Suc_eq_le zero_less_numeral zero_less_power)
    with c show ?thesis by (simp add: min_absorb2)
  qed
qed

section \<open>Properties\<close>

text \<open>
  A delay is within the bounds the jitter promises: with \<open>c\<close> the exponential delay capped at
  the maximum, for a jitter in \<open>[0, 1]\<close> and a number drawn from \<open>[0, jitter]\<close>, it is between half
  of \<open>c\<close> and the least of twice \<open>c\<close> and the maximum, rounding errors of \<open>f64\<close> included; the call
  does not panic, and counts the attempt. The maximum must be at most \<open>2 ^ 51\<close> milliseconds
  (71,000 years).
\<close>

theorem delay_bounds:
  assumes "bc_jitter (bo_cfg self) = Fin j" and "0 \<le> j" and "j \<le> 1"
    and "gen_range g j = (x, g')" and "0 \<le> x" and "x \<le> j"
    and "as_millis (bc_max (bo_cfg self)) \<le> 2 ^ 51"
  shows "\<exists>d. next_delay gen_range self g =
             Some (d, self\<lparr>bo_attempt := saturating_add (bo_attempt self) 1\<rparr>, g') \<and>
           capped self div 2 \<le> as_millis d \<and>
           as_millis d \<le> min (2 * capped self) (as_millis (bc_max (bo_cfg self)))"
  using assms by (rule next_delay_bounds)

definition sample_backoff :: "rat \<Rightarrow> u32 \<Rightarrow> Backoff" where
  "sample_backoff j n =
     \<lparr>bo_cfg = \<lparr>bc_initial = from_secs 5, bc_max = from_secs 300, bc_jitter = Fin j\<rparr>, bo_attempt = n\<rparr>"

lemma sample_backoff_capped:
  "capped (sample_backoff j 2) = 20000" "capped (sample_backoff j 10) = 300000"
  "as_millis (bc_max (bo_cfg (sample_backoff j n))) = 300000"
  by (simp_all add: capped_def sample_backoff_def as_millis_def from_secs_def saturating_pow2_def
      saturating_mul128_def)

theorem delay_bounds_witness:
  "\<exists>d b. next_delay (\<lambda>g j. (j / 2, g)) (sample_backoff (1 / 2) 2) (0::nat) = Some (d, b, 0) \<and>
     10000 \<le> as_millis d \<and> as_millis d \<le> 40000"
  using delay_bounds [of "sample_backoff (1 / 2) 2" "1 / 2" "\<lambda>g j. (j / 2, g)" 0 "1 / 4" 0]
  by (simp add: sample_backoff_capped) (auto simp: sample_backoff_def)

text \<open>
  Without jitter the delay is exact: the initial delay doubled once per attempt, in whole
  milliseconds, until the maximum caps it; the doubling saturates and does not wrap.
\<close>

theorem delay_exact:
  assumes "bc_jitter (bo_cfg self) = Fin 0" and "gen_range g 0 = (0, g')"
    and "as_millis (bc_max (bo_cfg self)) \<le> 2 ^ 51"
    and "unat (bo_attempt self) < 32"
    and "as_millis (bc_initial (bo_cfg self)) * 2 ^ unat (bo_attempt self) < 2 ^ 128"
  shows "\<exists>d b. next_delay gen_range self g = Some (d, b, g') \<and>
           as_millis d = min (as_millis (bc_initial (bo_cfg self)) * 2 ^ unat (bo_attempt self))
                             (as_millis (bc_max (bo_cfg self)))"
proof -
  have "(2::nat) ^ unat (bo_attempt self) \<le> 2 ^ 31"
    using assms(4) by (intro power_increasing) simp_all
  then have "capped self = min (as_millis (bc_initial (bo_cfg self)) * 2 ^ unat (bo_attempt self))
      (as_millis (bc_max (bo_cfg self)))"
    using assms(5) by (simp add: capped_def saturating_pow2_def saturating_mul128_def)
  moreover have "unat (of_nat (capped self) :: u64) = capped self"
  proof -
    have "capped self \<le> 2 ^ 51" using capped_le_max assms(3) by (rule order_trans)
    then have "capped self < 2 ^ 64" by simp
    then show ?thesis by (simp add: unat_of_nat)
  qed
  ultimately show ?thesis using next_delay_exact [of self gen_range g g'] assms(1-3) by simp
qed

theorem delay_exact_witness:
  "\<exists>d b. next_delay (\<lambda>g j. (0, g)) (sample_backoff 0 2) (0::nat) = Some (d, b, 0) \<and> as_millis d = 20000"
  using delay_exact [of "sample_backoff 0 2" "\<lambda>g j. (0, g)" 0 0]
  by (simp add: sample_backoff_capped) (simp add: sample_backoff_def as_millis_def from_secs_def)

end
