(* ===== verification/Session.thy ===== *)
theory Session
  imports Processor Backoff
begin

text \<open>
  \<open>session.rs\<close>: the session manager. The supervisor is in theory \<open>Supervisor\<close>.

  The two \<open>select!\<close> blocks that wait for a shutdown are decided by a schedule, a list with one
  entry for each \<open>select!\<close> reached: \<open>True\<close> if the shutdown notification is what wakes it. A
  schedule that has been used up before the loop ends stands for a program that is still running,
  and the result is \<open>None\<close>. Dropping the IDLE future on shutdown is not a step of the model: the
  client is dropped right after it.
\<close>

section \<open>The session manager\<close>

record ('w, 's) SessionManager =
  sm_engine :: "'s SieveEngine"
  sm_current :: "'w \<Rightarrow> 's"
  sm_imap :: "'w ImapClient"
  sm_smtp :: "'w MailSender option"
  sm_mailbox :: string
  sm_idle_timeout :: Duration
  sm_batch_size :: u64
  sm_stamp :: "'w \<Rightarrow> (string \<times> string) \<times> 'w"
  sm_serde :: Serde

definition IDLE_TIMEOUT :: Duration where
  "IDLE_TIMEOUT = from_secs (29 * 60)"

definition processor :: "('w, 's) SessionManager \<Rightarrow> Capabilities \<Rightarrow> ('w, 's) MessageProcessor" where
  "processor self caps =
     \<lparr>mp_engine = sm_engine self, mp_current = sm_current self, mp_imap = sm_imap self,
      mp_smtp = sm_smtp self, mp_caps = caps, mp_mailbox = sm_mailbox self,
      mp_batch_size = sm_batch_size self, mp_stamp = sm_stamp self, mp_serde = sm_serde self\<rparr>"

definition process_pending ::
    "('w, 's) SessionManager \<Rightarrow> Capabilities \<Rightarrow> ('w world, CoreError, unit) io" where
  "process_pending self caps = bind_io (run_batch (processor self caps)) (\<lambda>_. ret_io ())"

text \<open>Calls of the client, and updates of the state store, in the world of a session.\<close>

definition on_imap :: "('w, CoreError, 'a) io \<Rightarrow> ('w world, CoreError, 'a) io" where
  "on_imap m w = (case m (fst w) of (r, w') \<Rightarrow> (r, (w', snd w)))"

definition on_store :: "Serde \<Rightarrow> (State \<Rightarrow> State) \<Rightarrow> ('w world, CoreError, unit) io" where
  "on_store serde f w = (case update serde f (snd w) of (r, st) \<Rightarrow> (map_err State r, (fst w, st)))"

definition persisted :: "'w world \<Rightarrow> State" where
  "persisted w = ss_state (fst (snd w))"

definition record_select :: "string \<Rightarrow> MailboxStatus \<Rightarrow> State \<Rightarrow> State" where
  "record_select mailbox status s =
     (let s = s\<lparr>st_uidvalidity := Some (mb_uidvalidity status), st_selected_mailbox := Some mailbox\<rparr> in
      case mb_highestmodseq status of
        Some modseq \<Rightarrow> s\<lparr>st_highestmodseq := Some modseq\<rparr>
      | None \<Rightarrow> s)"

definition check_uidvalidity ::
    "('w, 's) SessionManager \<Rightarrow> MailboxStatus \<Rightarrow> ('w world, CoreError, unit) io" where
  "check_uidvalidity self status w =
     (case st_uidvalidity (persisted w) of
        Some old \<Rightarrow>
          if old \<noteq> mb_uidvalidity status
          then (Inl (UidValidityChanged old (mb_uidvalidity status)), w)
          else on_store (sm_serde self) (record_select (sm_mailbox self) status) w
      | None \<Rightarrow> on_store (sm_serde self) (record_select (sm_mailbox self) status) w)"

definition seed_last_seen ::
    "('w, 's) SessionManager \<Rightarrow> MailboxStatus \<Rightarrow> ('w world, CoreError, unit) io" where
  "seed_last_seen self status w =
     (if st_last_seen_uid (persisted w) = None
      then on_store (sm_serde self)
             (\<lambda>s. s\<lparr>st_last_seen_uid := Some (saturating_sub (mb_uidnext status) 1)\<rparr>) w
      else (Inr (), w))"

text \<open>Everything up to the loop; the result is the capabilities.\<close>

definition session_start :: "('w, 's) SessionManager \<Rightarrow> ('w world, CoreError, Capabilities) io" where
  "session_start self =
     bind_io (on_imap (capabilities (sm_imap self))) (\<lambda>caps.
     if \<not> cap_idle caps then throw_io (MissingCapability ''IDLE'')
     else
       bind_io (on_imap (select (sm_imap self) (sm_mailbox self))) (\<lambda>status.
       bind_io (check_uidvalidity self status) (\<lambda>_.
       bind_io (seed_last_seen self status) (\<lambda>_.
       bind_io (process_pending self caps) (\<lambda>_.
       ret_io caps)))))"

text \<open>One turn of the loop when IDLE wins.\<close>

definition idle_turn ::
    "('w, 's) SessionManager \<Rightarrow> Capabilities \<Rightarrow> ('w world, CoreError, unit) io" where
  "idle_turn self caps =
     bind_io (on_imap (idle (sm_imap self) (sm_idle_timeout self))) (\<lambda>event.
     case event of
       Exists _ \<Rightarrow> process_pending self caps
     | Interrupted \<Rightarrow> process_pending self caps
     | Disconnected \<Rightarrow> throw_io (Imap ''connection lost during IDLE''))"

fun session_loop ::
    "('w, 's) SessionManager \<Rightarrow> Capabilities \<Rightarrow> bool list \<Rightarrow> 'w world
       \<Rightarrow> ((CoreError + unit) option \<times> bool list) \<times> 'w world" where
  "session_loop self caps [] w = ((None, []), w)"
| "session_loop self caps (shutdown # sched) w =
     (if shutdown then ((Some (Inr ()), sched), w)
      else case idle_turn self caps w of
             (Inl e, w') \<Rightarrow> ((Some (Inl e), sched), w')
           | (Inr _, w') \<Rightarrow> session_loop self caps sched w')"

definition session_run ::
    "('w, 's) SessionManager \<Rightarrow> bool list \<Rightarrow> 'w world
       \<Rightarrow> ((CoreError + unit) option \<times> bool list) \<times> 'w world" where
  "session_run self sched w =
     (case session_start self w of
        (Inl e, w') \<Rightarrow> ((Some (Inl e), sched), w')
      | (Inr caps, w') \<Rightarrow> session_loop self caps sched w')"

section \<open>The store under a session\<close>

lemma persisted_on_imap [simp]: "persisted (snd (on_imap m w)) = persisted w"
  by (simp add: on_imap_def persisted_def split: prod.split)

lemma persisted_on_store [simp]: "persisted (snd (on_store serde f w)) = f (persisted w)"
proof -
  obtain r st where "update serde f (snd w) = (r, st)" by (rule prod.exhaust)
  with store.get_upd [of serde f "snd w"] show ?thesis by (simp add: on_store_def persisted_def)
qed

lemma snd_on_store [simp]: "snd (snd (on_store serde f w)) = snd (update serde f (snd w))"
  by (simp add: on_store_def split: prod.split)

lemma record_select_fields [simp]:
  "st_uidvalidity (record_select m status s) = Some (mb_uidvalidity status)"
  "st_last_seen_uid (record_select m status s) = st_last_seen_uid s"
  by (simp_all add: record_select_def Let_def split: option.split)

text \<open>
  Every update of a session progresses, so a session respects every evolution of its store.
\<close>

context store_evolution
begin

lemma moves_on_imap: "moves R (on_imap m)"
  by (simp add: moves_def on_imap_def R_refl split: prod.split)

lemma moves_check:
  assumes "sm_serde self = serde"
  shows "moves R (check_uidvalidity self status)"
  by (rule movesI)
     (auto simp: assms check_uidvalidity_def progress_def persisted_def R_refl intro: R_update split: option.split)

lemma moves_seed:
  assumes "sm_serde self = serde"
  shows "moves R (seed_last_seen self status)"
  by (rule movesI)
     (simp add: assms seed_last_seen_def progress_def persisted_def R_refl R_update)

lemma moves_pending: "sm_serde self = serde \<Longrightarrow> moves R (process_pending self caps)"
  unfolding process_pending_def
  by (intro moves_bind run_batch_moves moves_ret) (simp add: processor_def)

lemma moves_start: "sm_serde self = serde \<Longrightarrow> moves R (session_start self)"
  unfolding session_start_def
  by (auto intro!: moves_bind moves_on_imap moves_check moves_seed moves_pending moves_ret moves_throw)

lemma moves_turn: "sm_serde self = serde \<Longrightarrow> moves R (idle_turn self caps)"
  unfolding idle_turn_def
  by (auto intro!: moves_bind moves_on_imap moves_pending moves_throw split: IdleEvent.split)

lemma session_loop_moves:
  "sm_serde self = serde \<Longrightarrow> R (snd w) (snd (snd (session_loop self caps sched w)))"
proof (induction self caps sched w rule: session_loop.induct)
  case (2 self caps shutdown sched w)
  obtain r w' where t: "idle_turn self caps w = (r, w')" by (rule prod.exhaust)
  then have "R (snd w) (snd w')" by (rule movesD [OF moves_turn [OF 2(2)]])
  with 2 t show ?case
    by (cases r; cases w') (auto intro: R_trans R_refl)
qed (simp add: R_refl)

lemma session_run_moves:
  assumes "sm_serde self = serde"
  shows "R (snd w) (snd (snd (session_run self sched w)))"
proof -
  obtain r w' where t: "session_start self w = (r, w')" by (rule prod.exhaust)
  then have "R (snd w) (snd w')" by (rule movesD [OF moves_start [OF assms]])
  with t session_loop_moves [OF assms, of w' _ sched] show ?thesis
    by (cases r) (auto simp: session_run_def intro: R_trans)
qed

end

section \<open>Shutdown\<close>

lemma length_session_loop: "length (snd (fst (session_loop self caps sched w))) \<le> length sched"
  by (induction self caps sched w rule: session_loop.induct)
     (auto split: prod.split sum.split intro: le_SucI)

lemma length_session_run: "length (snd (fst (session_run self sched w))) \<le> length sched"
  by (auto simp: session_run_def length_session_loop split: prod.split sum.split)

text \<open>
  A schedule that still asks for a shutdown is not used up by a session: the session stops by
  itself, and what it leaves of the schedule still asks for it, unless it stopped for that reason.
\<close>

lemma session_loop_schedule:
  assumes "session_loop self caps sched w = ((out, left), w')" and "True \<in> set sched"
  shows "out \<noteq> None" and "out \<noteq> Some (Inr ()) \<Longrightarrow> True \<in> set left"
  using assms
  by (induction self caps sched w rule: session_loop.induct)
     (auto split: if_splits sum.splits prod.splits)

lemma session_loop_graceful:
  "session_loop self caps sched w = ((Some (Inr ()), left), w') \<Longrightarrow> True \<in> set sched"
  by (induction self caps sched w rule: session_loop.induct)
     (auto split: if_splits sum.splits prod.splits)

lemma session_run_schedule:
  assumes "session_run self sched w = ((out, left), w')" and "True \<in> set sched"
  shows "out \<noteq> None" and "out \<noteq> Some (Inr ()) \<Longrightarrow> True \<in> set left"
  using assms session_loop_schedule [of self _ sched]
  by (auto simp: session_run_def split: sum.splits prod.splits)

lemma session_run_graceful:
  "session_run self sched w = ((Some (Inr ()), left), w') \<Longrightarrow> True \<in> set sched"
  by (auto simp: session_run_def dest: session_loop_graceful split: sum.splits prod.splits)

lemma session_loop_left: "set (snd (fst (session_loop self caps sched w))) \<subseteq> set sched"
  by (induction self caps sched w rule: session_loop.induct) (auto split: prod.split sum.split)

lemma session_run_left: "set (snd (fst (session_run self sched w))) \<subseteq> set sched"
  using session_loop_left [of self _ sched]
  by (auto simp: session_run_def split: prod.split sum.split)

section \<open>A changed UIDVALIDITY\<close>

lemma refuses_changed_uidvalidity:
  assumes "capabilities (sm_imap self) (fst w) = (Inr caps, w1)" and "cap_idle caps"
    and "select (sm_imap self) (sm_mailbox self) w1 = (Inr status, w2)"
    and "st_uidvalidity (persisted w) = Some old" and "old \<noteq> mb_uidvalidity status"
  shows "session_run self sched w =
           ((Some (Inl (UidValidityChanged old (mb_uidvalidity status))), sched), (w2, snd w))"
  using assms
  by (simp add: session_run_def session_start_def on_imap_def bind_io_def check_uidvalidity_def
      persisted_def)

text \<open>A first run, up to its first batch.\<close>

lemma first_run_start:
  assumes "capabilities (sm_imap self) (fst w) = (Inr caps, w1)" and "cap_idle caps"
    and "select (sm_imap self) (sm_mailbox self) w1 = (Inr status, w2)"
    and "st_uidvalidity (persisted w) = None" and "st_last_seen_uid (persisted w) = None"
    and "check_uidvalidity self status (w2, snd w) = (Inr (), w3)"
    and "seed_last_seen self status w3 = (Inr (), w4)" and "0 < mb_uidnext status"
  shows "session_start self w = bind_io (process_pending self caps) (\<lambda>_. ret_io caps) w4 \<and>
         last_seen w4 = Some (mb_uidnext status - 1) \<and> fst w4 = w2"
proof -
  have start: "session_start self w = bind_io (process_pending self caps) (\<lambda>_. ret_io caps) w4"
    using assms by (simp add: session_start_def on_imap_def bind_io_def)
  have p3: "persisted w3 = record_select (sm_mailbox self) status (persisted w)"
    and f3: "fst w3 = w2"
    using assms(4,6) persisted_on_store [of "sm_serde self" "record_select (sm_mailbox self) status" "(w2, snd w)"]
    by (auto simp: check_uidvalidity_def persisted_def on_store_def split: prod.splits)
  have "st_last_seen_uid (persisted w3) = None" using assms(5) p3 by simp
  with assms(7) have w4: "on_store (sm_serde self)
      (\<lambda>s. s\<lparr>st_last_seen_uid := Some (saturating_sub (mb_uidnext status) 1)\<rparr>) w3 = (Inr (), w4)"
    by (simp add: seed_last_seen_def)
  have "persisted w4 = (persisted w3)\<lparr>st_last_seen_uid := Some (saturating_sub (mb_uidnext status) 1)\<rparr>"
    using persisted_on_store [of "sm_serde self" "\<lambda>s. s\<lparr>st_last_seen_uid := Some (saturating_sub (mb_uidnext status) 1)\<rparr>" w3] w4
    by simp
  moreover have "saturating_sub (mb_uidnext status) 1 = mb_uidnext status - 1"
    using assms(8) by (simp add: saturating_sub_def word_le_nat_alt word_less_nat_alt)
  moreover have "fst w4 = fst w3" using w4 by (auto simp: on_store_def split: prod.splits)
  ultimately show ?thesis using start f3 by (simp add: last_seen_def persisted_def)
qed

section \<open>Properties\<close>

text \<open>
  C4. A mailbox whose UIDVALIDITY differs from the recorded one is left alone: the session ends
  with that error right after SELECT, before any message is fetched or changed and before the
  state is written, in memory or on disk.
\<close>

theorem changed_uidvalidity_refused:
  assumes "capabilities (sm_imap self) (fst w) = (Inr caps, w1)" and "cap_idle caps"
    and "select (sm_imap self) (sm_mailbox self) w1 = (Inr status, w2)"
    and "st_uidvalidity (persisted w) = Some old" and "old \<noteq> mb_uidvalidity status"
  shows "session_run self sched w =
           ((Some (Inl (UidValidityChanged old (mb_uidvalidity status))), sched), (w2, snd w))"
  using assms by (rule refuses_changed_uidvalidity)

definition sample_session :: "(FakeImap, string) SessionManager" where
  "sample_session =
     \<lparr>sm_engine = sample_engine, sm_current = (\<lambda>_. ''keep;''), sm_imap = fake_imap, sm_smtp = None,
      sm_mailbox = ''INBOX'', sm_idle_timeout = IDLE_TIMEOUT, sm_batch_size = 10,
      sm_stamp = (\<lambda>w. (([], []), w)), sm_serde = sample_serde\<rparr>"

definition sample_start :: "FakeImap world" where
  "sample_start = (sample_fake [], \<lparr>ss_path = ''/s/state.json'', ss_state = default_State\<rparr>, sample_disk)"

theorem changed_uidvalidity_refused_witness:
  "fst (session_run sample_session [False]
      (sample_fake [sample_msg 5],
       \<lparr>ss_path = ''/s/state.json'', ss_state = default_State\<lparr>st_uidvalidity := Some 6\<rparr>\<rparr>, sample_disk)) =
     (Some (Inl (UidValidityChanged 6 7)), [False])"
  by (subst changed_uidvalidity_refused [of _ _ "fk_caps new_FakeImap" "sample_fake [sample_msg 5]"
        sample_status "sample_fake [sample_msg 5]" 6])
     (simp_all add: sample_session_def fake_imap_def sample_fake_def new_FakeImap_def persisted_def
        sample_status_def)

text \<open>
  C17. On a first run, with neither a UIDVALIDITY nor a UID recorded, a server that gives a UIDNEXT
  above 0, and two writes of the state that succeed, the session anchors the record at UIDNEXT - 1,
  and its first batch asks for the UIDs from UIDNEXT on: the session goes on with what that fetch
  gives, cut to the batch size, so it handles mail that had not arrived when the mailbox was selected.
\<close>

theorem first_run_anchor:
  assumes "capabilities (sm_imap self) (fst w) = (Inr caps, w1)" and "cap_idle caps"
    and "select (sm_imap self) (sm_mailbox self) w1 = (Inr status, w2)"
    and "st_uidvalidity (persisted w) = None" and "st_last_seen_uid (persisted w) = None"
    and "check_uidvalidity self status (w2, snd w) = (Inr (), w3)"
    and "seed_last_seen self status w3 = (Inr (), w4)" and "0 < mb_uidnext status"
  shows "session_start self w =
           (case fetch_uid_range (sm_imap self) (sm_mailbox self) (mb_uidnext status)
                   (if cap_condstore caps then st_highestmodseq (persisted w4) else None) w2 of
              (Inl e, w') \<Rightarrow> (Inl e, (w', snd w4))
            | (Inr messages, w') \<Rightarrow>
                bind_io (process_loop (processor self caps) (sm_current self w')
                           (take (unat (sm_batch_size self)) messages) []) (\<lambda>_. ret_io caps) (w', snd w4)) \<and>
         last_seen w4 = Some (mb_uidnext status - 1)"
proof -
  have start: "session_start self w = bind_io (process_pending self caps) (\<lambda>_. ret_io caps) w4"
    and seen: "last_seen w4 = Some (mb_uidnext status - 1)" and w4: "fst w4 = w2"
    using first_run_start [OF assms] by auto
  show ?thesis
    unfolding start using seen w4
    by (auto simp: process_pending_def run_batch_def processor_def persisted_def bind_io_def Let_def
        split: prod.split sum.split)
qed

theorem first_run_anchor_witness:
  "\<exists>st. session_start sample_session sample_start =
       bind_io (process_loop (processor sample_session (fk_caps new_FakeImap)) ''keep;'' [] [])
         (\<lambda>_. ret_io (fk_caps new_FakeImap)) (sample_fake [], st) \<and>
     last_seen (sample_fake [], st) = Some 4"
proof -
  let ?store = "\<lparr>ss_path = ''/s/state.json'', ss_state = default_State\<rparr>"
  let ?s3 = "record_select (sm_mailbox sample_session) sample_status default_State"
  obtain d3 where u3: "update sample_serde (record_select (sm_mailbox sample_session) sample_status) (?store, sample_disk)
      = (Inr (), (?store\<lparr>ss_state := ?s3\<rparr>, d3))" and f3: "\<forall>n. fault d3 n = None"
    using sample_update [of sample_disk "record_select (sm_mailbox sample_session) sample_status" ?store]
    by (auto simp: sample_disk_def)
  obtain d4 where u4: "update sample_serde (\<lambda>s. s\<lparr>st_last_seen_uid := Some (saturating_sub 5 1)\<rparr>)
      (?store\<lparr>ss_state := ?s3\<rparr>, d3)
      = (Inr (), (?store\<lparr>ss_state := ?s3\<lparr>st_last_seen_uid := Some (saturating_sub 5 1)\<rparr>\<rparr>, d4))"
    using sample_update [of d3 _ "?store\<lparr>ss_state := ?s3\<rparr>"] f3 by force
  have w3: "check_uidvalidity sample_session sample_status (sample_fake [], snd sample_start) =
      (Inr (), (sample_fake [], ?store\<lparr>ss_state := ?s3\<rparr>, d3))"
    using u3 by (simp add: check_uidvalidity_def persisted_def on_store_def sample_start_def
        sample_session_def default_State_def)
  have w4: "seed_last_seen sample_session sample_status (sample_fake [], ?store\<lparr>ss_state := ?s3\<rparr>, d3) =
      (Inr (), (sample_fake [], ?store\<lparr>ss_state := ?s3\<lparr>st_last_seen_uid := Some (saturating_sub 5 1)\<rparr>\<rparr>, d4))"
    using u4 by (simp add: seed_last_seen_def persisted_def on_store_def default_State_def
        sample_session_def sample_status_def)
  from first_run_anchor [OF _ _ _ _ _ w3 w4, of "fk_caps new_FakeImap" "sample_fake []"] show ?thesis
    by (auto simp: new_FakeImap_def sample_start_def persisted_def default_State_def sample_status_def
        sample_session_def fake_imap_def sample_fake_def)
qed

text \<open>
  C28. Mail that arrives while the daemon is down is not drained from a server with CONDSTORE. The
  session records the server's current HIGHESTMODSEQ at SELECT, and the batch that follows asks
  for messages changed since that very value. A server that answers, as it should, that nothing
  has changed since ends the startup with nothing processed and the recorded UID unmoved, however
  many messages lie beyond it.
\<close>

theorem condstore_drain_is_empty:
  assumes "capabilities (sm_imap self) (fst w) = (Inr caps, w1)" and "cap_idle caps" and "cap_condstore caps"
    and "select (sm_imap self) (sm_mailbox self) w1 = (Inr status, w2)"
    and "mb_highestmodseq status = Some modseq"
    and "st_uidvalidity (persisted w) = Some (mb_uidvalidity status)"
    and "last_seen w = Some u"
    and "update (sm_serde self) (record_select (sm_mailbox self) status) (snd w) = (Inr (), st)"
    and "fetch_uid_range (sm_imap self) (sm_mailbox self) (u + 1) (Some modseq) w2 = (Inr [], w3)"
  shows "session_start self w = (Inr caps, (w3, st)) \<and> last_seen (w3, st) = Some u"
proof -
  have st: "ss_state (fst st) = record_select (sm_mailbox self) status (persisted w)"
    using store.get_upd_Ok [OF assms(8)] by (simp add: persisted_def)
  then have u: "st_last_seen_uid (ss_state (fst st)) = Some u"
    using assms(7) by (simp add: last_seen_def persisted_def)
  have m: "st_highestmodseq (ss_state (fst st)) = Some modseq"
    unfolding st record_select_def Let_def using assms(5) by simp
  have "process_pending self caps (w2, st) = (Inr (), (w3, st))"
    using assms(3,9) u m
    by (simp add: process_pending_def run_batch_def processor_def last_seen_def bind_io_def)
  then show ?thesis
    using assms u
    by (simp add: session_start_def on_imap_def bind_io_def check_uidvalidity_def persisted_def
        on_store_def seed_last_seen_def last_seen_def)
qed

definition condstore_session :: "(FakeImap, string) SessionManager" where
  "condstore_session = sample_session\<lparr>sm_imap := fake_imap\<lparr>fetch_uid_range :=
     (\<lambda>_ start since self. (Inr (if since = None then fk_fetch_responses self else []), self))\<rparr>\<rparr>"

theorem condstore_drain_is_empty_witness:
  "\<exists>w'. session_start condstore_session
      (with_caps (sample_fake [sample_msg 5, sample_msg 6]) (fk_caps new_FakeImap\<lparr>cap_condstore := True\<rparr>),
       \<lparr>ss_path = ''/s/state.json'', ss_state = default_State\<lparr>st_uidvalidity := Some 7, st_last_seen_uid := Some 4\<rparr>\<rparr>,
       sample_disk) = (Inr (fk_caps new_FakeImap\<lparr>cap_condstore := True\<rparr>), w') \<and> last_seen w' = Some 4"
proof -
  let ?c = "fk_caps new_FakeImap\<lparr>cap_condstore := True\<rparr>"
  let ?i = "with_caps (sample_fake [sample_msg 5, sample_msg 6]) ?c"
  let ?st = "(\<lparr>ss_path = ''/s/state.json'', ss_state = default_State\<lparr>st_uidvalidity := Some 7, st_last_seen_uid := Some 4\<rparr>\<rparr>, sample_disk)"
  let ?u = "update (sm_serde condstore_session) (record_select (sm_mailbox condstore_session) sample_status) ?st"
  have "?u = (Inr (), snd ?u)"
    by (simp add: update_def persist_def persist_steps_def Let_def condstore_session_def sample_session_def
        sample_defs)
  then show ?thesis
    using condstore_drain_is_empty [of condstore_session "(?i, ?st)" ?c ?i sample_status ?i 9 4 "snd ?u" ?i]
    by (auto simp: condstore_session_def sample_session_def fake_imap_def sample_fake_def with_caps_def
        new_FakeImap_def sample_status_def persisted_def last_seen_def)
qed

end
