(* ===== verification/Supervisor.thy ===== *)
theory Supervisor
  imports Session
begin

text \<open>
  \<open>session.rs\<close>: the supervisor, as a function and as a state machine. A schedule, as for a session,
  has one entry for each \<open>select!\<close> reached, here the connection attempt and the sleep between two
  attempts.
\<close>

section \<open>The supervisor\<close>

text \<open>
  \<open>su_connect\<close> is the connection factory: it makes the client of the outside world a fresh,
  connected one. \<open>su_session\<close> holds what every session is built from.
\<close>

record ('w, 's, 'g) Supervisor =
  su_connect :: "('w, CoreError, unit) io"
  su_session :: "('w, 's) SessionManager"
  su_backoff_cfg :: BackoffConfig
  su_rng :: "'g rng"

datatype exit = Graceful | Failed CoreError | Panicked

text \<open>
  The reconnect loop. Its result is how it ended (\<open>None\<close>: still running), the delays it has slept
  in order, and the world. \<open>connected\<close> says whether the loop is about to run a session.
\<close>

function supervise ::
    "('w, 's, 'g) Supervisor \<Rightarrow> Backoff \<Rightarrow> 'g \<Rightarrow> bool list \<Rightarrow> Duration list \<Rightarrow> 'w world
       \<Rightarrow> exit option \<times> Duration list \<times> 'w world"
and back_off ::
    "('w, 's, 'g) Supervisor \<Rightarrow> Backoff \<Rightarrow> 'g \<Rightarrow> bool list \<Rightarrow> Duration list \<Rightarrow> 'w world
       \<Rightarrow> exit option \<times> Duration list \<times> 'w world"
where
  "supervise self backoff rng sched slept w =
     (case sched of
        [] \<Rightarrow> (None, slept, w)
      | shutdown # sched \<Rightarrow>
          if shutdown then (Some Graceful, slept, w)
          else case on_imap (su_connect self) w of
                 (Inl e, w') \<Rightarrow> back_off self backoff rng sched slept w'
               | (Inr _, w') \<Rightarrow>
                   let backoff' = reset backoff; out = session_run (su_session self) sched w' in
                   case fst (fst out) of
                     None \<Rightarrow> (None, slept, snd out)
                   | Some (Inr _) \<Rightarrow> (Some Graceful, slept, snd out)
                   | Some (Inl e) \<Rightarrow>
                       if is_UidValidityChanged e then (Some (Failed e), slept, snd out)
                       else back_off self backoff' rng (snd (fst out)) slept (snd out))"
| "back_off self backoff rng sched slept w =
     (case next_delay (su_rng self) backoff rng of
        None \<Rightarrow> (Some Panicked, slept, w)
      | Some (delay, backoff', rng') \<Rightarrow>
          (case sched of
             [] \<Rightarrow> (None, slept @ [delay], w)
           | shutdown # sched \<Rightarrow>
               if shutdown then (Some Graceful, slept @ [delay], w)
               else supervise self backoff' rng' sched (slept @ [delay]) w))"
  by pat_completeness auto
termination
proof (relation "measure (\<lambda>x. case x of
      Inl (self, backoff, rng, sched, slept, w) \<Rightarrow> 2 * length sched + 1
    | Inr (self, backoff, rng, sched, slept, w) \<Rightarrow> 2 * length sched + 2)", goal_cases)
qed (use length_session_run in \<open>auto simp: Let_def less_Suc_eq_le\<close>)

declare supervise.simps [simp del] back_off.simps [simp del]

section \<open>The supervisor as a state machine\<close>

text \<open>
  The states the supervisor goes through: about to connect, about to compute a delay, sleeping, or
  at its end (\<open>None\<close>: the schedule is used up and the program still runs). \<open>after_session\<close> is the
  \<open>match\<close> on the outcome of a session.
\<close>

datatype phase = Connecting | BackingOff | Sleeping | Stopped "exit option"

fun after_session :: "(CoreError + unit) option \<Rightarrow> phase" where
  "after_session None = Stopped None"
| "after_session (Some (Inr _)) = Stopped (Some Graceful)"
| "after_session (Some (Inl e)) = (if is_UidValidityChanged e then Stopped (Some (Failed e)) else BackingOff)"

type_synonym ('w, 'g) sup_state = "phase \<times> Backoff \<times> 'g \<times> bool list \<times> Duration list \<times> 'w world"

inductive sup_step :: "('w, 's, 'g) Supervisor \<Rightarrow> ('w, 'g) sup_state \<Rightarrow> ('w, 'g) sup_state \<Rightarrow> bool"
  for self :: "('w, 's, 'g) Supervisor" where
  running: "sup_step self (Connecting, b, g, [], sl, w) (Stopped None, b, g, [], sl, w)"
| shutdown: "sup_step self (Connecting, b, g, True # sc, sl, w) (Stopped (Some Graceful), b, g, sc, sl, w)"
| connect_fails: "on_imap (su_connect self) w = (Inl e, w') \<Longrightarrow>
     sup_step self (Connecting, b, g, False # sc, sl, w) (BackingOff, b, g, sc, sl, w')"
| session_ends: "on_imap (su_connect self) w = (Inr u, w') \<Longrightarrow>
     session_run (su_session self) sc w' = ((out, left), w'') \<Longrightarrow>
     sup_step self (Connecting, b, g, False # sc, sl, w) (after_session out, reset b, g, left, sl, w'')"
| panics: "next_delay (su_rng self) b g = None \<Longrightarrow>
     sup_step self (BackingOff, b, g, sc, sl, w) (Stopped (Some Panicked), b, g, sc, sl, w)"
| sleeps: "next_delay (su_rng self) b g = Some (d, b', g') \<Longrightarrow>
     sup_step self (BackingOff, b, g, sc, sl, w) (Sleeping, b', g', sc, sl @ [d], w)"
| still_asleep: "sup_step self (Sleeping, b, g, [], sl, w) (Stopped None, b, g, [], sl, w)"
| sleep_shutdown: "sup_step self (Sleeping, b, g, True # sc, sl, w) (Stopped (Some Graceful), b, g, sc, sl, w)"
| wakes: "sup_step self (Sleeping, b, g, False # sc, sl, w) (Connecting, b, g, sc, sl, w)"

inductive_cases sup_stepE: "sup_step self (ph, b, g, sc, sl, w) s'"

abbreviation reaches :: "('w, 's, 'g) Supervisor \<Rightarrow> ('w, 'g) sup_state \<Rightarrow> ('w, 'g) sup_state \<Rightarrow> bool" where
  "reaches self \<equiv> (sup_step self)\<^sup>*\<^sup>*"

lemma stops:
  "sup_step self s (Stopped ex, b', g', sc', sl', w') \<Longrightarrow>
     \<exists>b' g' sc'. reaches self s (Stopped ex, b', g', sc', sl', w')"
  by blast

lemma steps:
  "sup_step self s t \<Longrightarrow> \<exists>b' g' sc'. reaches self t (Stopped ex, b', g', sc', sl', w') \<Longrightarrow>
     \<exists>b' g' sc'. reaches self s (Stopped ex, b', g', sc', sl', w')"
  by (meson converse_rtranclp_into_rtranclp)

lemma supervise_reaches:
  fixes self :: "('w, 's, 'g) Supervisor"
  shows "supervise self b g sc sl w = (ex, sl', w') \<Longrightarrow>
      \<exists>b' g' sc'. reaches self (Connecting, b, g, sc, sl, w) (Stopped ex, b', g', sc', sl', w')"
    and "back_off self b g sc sl w = (ex, sl', w') \<Longrightarrow>
      \<exists>b' g' sc'. reaches self (BackingOff, b, g, sc, sl, w) (Stopped ex, b', g', sc', sl', w')"
proof (induction self b g sc sl w and self b g sc sl w arbitrary: ex sl' w' and ex sl' w'
    rule: supervise_back_off.induct)
  case (1 self b g sc sl w)
  show ?case
  proof (cases sc)
    case Nil
    with "1.prems" show ?thesis by (subst (asm) supervise.simps) (auto intro!: stops running)
  next
    case sc: (Cons sh sched)
    obtain r w1 where con: "on_imap (su_connect self) w = (r, w1)" by (rule prod.exhaust)
    show ?thesis
    proof (cases sh)
      case True
      with "1.prems" sc show ?thesis by (subst (asm) supervise.simps) (auto intro!: stops shutdown)
    next
      case sh: False
      show ?thesis
      proof (cases r)
        case (Inl e)
        with "1.prems" sc sh con have "back_off self b g sched sl w1 = (ex, sl', w')"
          by (subst (asm) supervise.simps) simp
        from "1.IH"(1) [OF sc _ con [symmetric] Inl this] sh
        have "\<exists>b' g' sc'. reaches self (BackingOff, b, g, sched, sl, w1) (Stopped ex, b', g', sc', sl', w')"
          by simp
        from steps [OF connect_fails [OF con [unfolded Inl]] this] sc sh show ?thesis by simp
      next
        case (Inr u)
        obtain x w2 where x: "session_run (su_session self) sched w1 = (x, w2)" by (rule prod.exhaust)
        obtain out left where "x = (out, left)" by (rule prod.exhaust)
        with x have run: "session_run (su_session self) sched w1 = ((out, left), w2)" by simp
        have st: "sup_step self (Connecting, b, g, sc, sl, w) (after_session out, reset b, g, left, sl, w2)"
          using session_ends [OF con [unfolded Inr] run] sc sh by simp
        show ?thesis
        proof (cases "after_session out = BackingOff")
          case True
          then obtain e where out: "out = Some (Inl e)" and e: "\<not> is_UidValidityChanged e"
            by (cases out rule: after_session.cases) (auto split: if_splits)
          with "1.prems" sc sh con Inr run have "back_off self (reset b) g left sl w2 = (ex, sl', w')"
            by (subst (asm) supervise.simps) (simp add: Let_def)
          with "1.IH"(2) [OF sc _ con [symmetric] Inr refl refl] run out e sh
          have "\<exists>b' g' sc'. reaches self (BackingOff, reset b, g, left, sl, w2) (Stopped ex, b', g', sc', sl', w')"
            by simp
          with st True show ?thesis by (intro steps [OF st]) simp
        next
          case False
          then have "after_session out = Stopped ex \<and> sl' = sl \<and> w' = w2"
            using "1.prems" sc sh con Inr run
            by (cases out rule: after_session.cases; subst (asm) supervise.simps)
               (auto simp: Let_def split: if_splits)
          with stops [of self _ ex] st show ?thesis by auto
        qed
      qed
    qed
  qed
next
  case (2 self b g sc sl w)
  show ?case
  proof (cases "next_delay (su_rng self) b g")
    case None
    with "2.prems" show ?thesis by (subst (asm) back_off.simps) (auto intro!: stops panics)
  next
    case (Some a)
    then obtain d b1 g1 where nd: "next_delay (su_rng self) b g = Some (d, b1, g1)" by (cases a) auto
    note sl = sleeps [OF nd]
    show ?thesis
    proof (cases sc)
      case Nil
      with "2.prems" nd have "ex = None \<and> sl' = sl @ [d] \<and> w' = w"
        by (subst (asm) back_off.simps) auto
      with steps [OF sl stops [OF still_asleep]] Nil show ?thesis by blast
    next
      case sc: (Cons sh sched)
      show ?thesis
      proof (cases sh)
        case True
        with "2.prems" nd sc have "ex = Some Graceful \<and> sl' = sl @ [d] \<and> w' = w"
          by (subst (asm) back_off.simps) auto
        then show ?thesis
          using steps [OF sl stops [OF sleep_shutdown [of self b1 g1 sched "sl @ [d]" w]]] sc True by simp
      next
        case False
        with "2.prems" nd sc have "supervise self b1 g1 sched (sl @ [d]) w = (ex, sl', w')"
          by (subst (asm) back_off.simps) simp
        with "2.IH" nd sc False have "\<exists>b' g' sc'. reaches self (Connecting, b1, g1, sched, sl @ [d], w)
            (Stopped ex, b', g', sc', sl', w')" by auto
        then show ?thesis
          using steps [OF sl steps [OF wakes [of self b1 g1 sched "sl @ [d]" w]]] sc False by simp
      qed
    qed
  qed
qed

text \<open>
  The machine is deterministic and a stopped supervisor takes no further step, so it stops in one
  state at most, and the function and the machine agree.
\<close>

lemma sup_step_det: "sup_step self s t \<Longrightarrow> sup_step self s t' \<Longrightarrow> t = t'"
  by (induction arbitrary: t' rule: sup_step.induct) (auto elim!: sup_stepE)

lemma stopped_final: "\<not> sup_step self (Stopped ex, b, g, sc, sl, w) t"
  by (auto elim: sup_stepE)

lemma reaches_stopped_unique:
  assumes "reaches self s (Stopped ex, r)" and "reaches self s (Stopped ex', r')"
  shows "(Stopped ex, r) = (Stopped ex', r')"
  using assms
proof (induction s rule: converse_rtranclp_induct)
  case base
  then show ?case
    by (cases r) (auto elim: converse_rtranclpE simp: stopped_final)
next
  case (step s t)
  from step.prems show ?case
  proof (cases rule: converse_rtranclpE)
    case base
    with step.hyps(1) show ?thesis by (cases r') (simp add: stopped_final)
  next
    case (step u)
    with sup_step_det [OF \<open>sup_step self s t\<close>] have "u = t" by blast
    with step.IH step show ?thesis by simp
  qed
qed

lemma supervise_iff_reaches:
  "supervise self b g sched slept w = (ex, slept', w') \<longleftrightarrow>
     (\<exists>b' g' sc'. reaches self (Connecting, b, g, sched, slept, w) (Stopped ex, b', g', sc', slept', w'))"
proof
  assume "\<exists>b' g' sc'. reaches self (Connecting, b, g, sched, slept, w) (Stopped ex, b', g', sc', slept', w')"
  then obtain r where r: "reaches self (Connecting, b, g, sched, slept, w) (Stopped ex, r)"
    and shape: "\<exists>b' g' sc'. r = (b', g', sc', slept', w')" by blast
  obtain ex1 sl1 w1 where sup: "supervise self b g sched slept w = (ex1, sl1, w1)" by (metis prod_cases3)
  from supervise_reaches(1) [OF this] obtain b1 g1 sc1 where
    "reaches self (Connecting, b, g, sched, slept, w) (Stopped ex1, b1, g1, sc1, sl1, w1)" by blast
  from reaches_stopped_unique [OF r this] shape sup
  show "supervise self b g sched slept w = (ex, slept', w')" by auto
qed (rule supervise_reaches(1))

section \<open>Invariants of the supervisor\<close>

lemma reaches_invariant:
  assumes "reaches self s t" and "I s" and "\<And>s t. sup_step self s t \<Longrightarrow> I s \<Longrightarrow> I t"
  shows "I t"
  using assms(1) by (induction rule: rtranclp_induct) (use assms(2,3) in blast)+

lemma next_delay_cfg:
  "next_delay gen self g = Some (d, self', g') \<Longrightarrow> bo_cfg self' = bo_cfg self"
  by (auto simp: next_delay_def split: f64.splits if_splits prod.splits)

lemma next_delay_valid_jitter:
  "bc_jitter (bo_cfg self) = Fin j \<Longrightarrow> 0 \<le> j \<Longrightarrow> next_delay gen self g \<noteq> None"
  by (auto simp: next_delay_def split: prod.split)

lemma reset_cfg [simp]: "bo_cfg (reset b) = bo_cfg b"
  by (simp add: reset_def)

text \<open>
  An evolution of the store is respected by every step, and so between the start and every state
  the supervisor reaches.
\<close>

definition inv_moves ::
    "(StateStore \<times> disk \<Rightarrow> StateStore \<times> disk \<Rightarrow> bool) \<Rightarrow> StateStore \<times> disk \<Rightarrow> ('w, 'g) sup_state \<Rightarrow> bool" where
  "inv_moves R st s = (case s of (ph, b, g, sc, sl, w) \<Rightarrow> R st (snd w))"

context store_evolution
begin

lemma step_moves:
  assumes "sm_serde (su_session self) = serde"
  shows "sup_step self s t \<Longrightarrow> inv_moves R st s \<Longrightarrow> inv_moves R st t"
proof (induction rule: sup_step.induct)
  case (connect_fails w e w' b g sc sl)
  then show ?case
    using movesD [OF moves_on_imap connect_fails(1)] by (auto simp: inv_moves_def intro: R_trans)
next
  case (session_ends w u w' sc out left w'' b g sl)
  then show ?case
    using movesD [OF moves_on_imap session_ends(1)] session_run_moves [OF assms, of w' sc]
    by (auto simp: inv_moves_def intro: R_trans)
qed (simp_all add: inv_moves_def)

lemma supervise_moves:
  assumes "sm_serde (su_session self) = serde"
  shows "R (snd w) (snd (snd (snd (supervise self b g sched slept w))))"
proof -
  obtain ex sl' w' where sup: "supervise self b g sched slept w = (ex, sl', w')"
    by (metis prod_cases3)
  from supervise_reaches(1) [OF sup] obtain b' g' sc' where
    "reaches self (Connecting, b, g, sched, slept, w) (Stopped ex, b', g', sc', sl', w')" by blast
  then have "inv_moves R (snd w) (Stopped ex, b', g', sc', sl', w')"
    by (rule reaches_invariant [OF _ _ step_moves [OF assms]]) (simp_all add: inv_moves_def R_refl)
  with sup show ?thesis by (simp add: inv_moves_def)
qed

end

text \<open>
  How the supervisor can end, and with it the schedule: it does not panic if the jitter is valid,
  it fails for a changed UIDVALIDITY only, and it stops gracefully only if asked to.
\<close>

definition inv_exit :: "rat \<Rightarrow> bool list \<Rightarrow> ('w, 'g) sup_state \<Rightarrow> bool" where
  "inv_exit j sc0 s = (case s of (ph, b, g, sc, sl, w) \<Rightarrow>
     bc_jitter (bo_cfg b) = Fin j \<and> set sc \<subseteq> set sc0 \<and>
     (case ph of
        Stopped (Some Graceful) \<Rightarrow> True \<in> set sc0
      | Stopped (Some (Failed e)) \<Rightarrow> is_UidValidityChanged e
      | Stopped (Some Panicked) \<Rightarrow> False
      | _ \<Rightarrow> True))"

lemma step_exit:
  assumes "0 \<le> j"
  shows "sup_step self s t \<Longrightarrow> inv_exit j sc0 s \<Longrightarrow> inv_exit j sc0 t"
proof (induction rule: sup_step.induct)
  case (session_ends w u w' sc out left w'' b g sl)
  have "set left \<subseteq> set sc" using session_run_left [of "su_session self" sc w'] session_ends by simp
  moreover have "out = Some (Inr ()) \<Longrightarrow> True \<in> set sc"
    using session_run_graceful session_ends(2) by blast
  ultimately show ?case
    using session_ends(3) by (cases out rule: after_session.cases) (auto simp: inv_exit_def)
next
  case (panics b g sc sl w)
  then show ?case
    using next_delay_valid_jitter [of b j "su_rng self" g] assms by (simp add: inv_exit_def)
qed (auto simp: inv_exit_def dest: next_delay_cfg)

lemma supervise_ends:
  assumes "supervise self b g sched slept w = (Some ex, slept', w')"
    and "bc_jitter (bo_cfg b) = Fin j" and "0 \<le> j"
  shows "(ex = Graceful \<and> True \<in> set sched) \<or> (\<exists>e. ex = Failed e \<and> is_UidValidityChanged e)"
proof -
  from supervise_reaches(1) [OF assms(1)] obtain b' g' sc' where
    "reaches self (Connecting, b, g, sched, slept, w) (Stopped (Some ex), b', g', sc', slept', w')" by blast
  then have "inv_exit j sched (Stopped (Some ex), b', g', sc', slept', w')"
    by (rule reaches_invariant [OF _ _ step_exit [OF assms(3)]]) (use assms(2) in \<open>simp_all add: inv_exit_def\<close>)
  then show ?thesis by (cases ex) (auto simp: inv_exit_def)
qed

text \<open>As long as the supervisor has not ended, a pending shutdown is still to come.\<close>

definition inv_pending :: "('w, 'g) sup_state \<Rightarrow> bool" where
  "inv_pending s = (case s of (ph, b, g, sc, sl, w) \<Rightarrow>
     (case ph of Stopped ex \<Rightarrow> ex \<noteq> None | _ \<Rightarrow> True \<in> set sc))"

lemma step_pending: "sup_step self s t \<Longrightarrow> inv_pending s \<Longrightarrow> inv_pending t"
proof (induction rule: sup_step.induct)
  case (session_ends w u w' sc out left w'' b g sl)
  then have "True \<in> set sc" by (simp add: inv_pending_def)
  with session_run_schedule [OF session_ends(2)] show ?case
    by (cases out rule: after_session.cases) (auto simp: inv_pending_def)
qed (auto simp: inv_pending_def)

text \<open>
  Where every connection succeeds, every delay is the first one: the reset after the connection
  has undone the attempts counted before.
\<close>

definition inv_first :: "BackoffConfig \<Rightarrow> ('w, 'g) sup_state \<Rightarrow> bool" where
  "inv_first cfg s = (case s of (ph, b, g, sc, sl, w) \<Rightarrow>
     bo_cfg b = cfg \<and> (ph = BackingOff \<longrightarrow> bo_attempt b = 0) \<and>
     (\<forall>d \<in> set sl. as_millis d = min (as_millis (bc_initial cfg)) (as_millis (bc_max cfg))))"

lemma capped_first:
  assumes "bo_attempt b = 0" and "as_millis (bc_initial (bo_cfg b)) < 2 ^ 128"
  shows "capped b = min (as_millis (bc_initial (bo_cfg b))) (as_millis (bc_max (bo_cfg b)))"
  using assms by (simp add: capped_def saturating_pow2_def saturating_mul128_def)

lemma step_first:
  assumes "bc_jitter cfg = Fin 0" and "as_millis (bc_max cfg) \<le> 2 ^ 51"
    and "as_millis (bc_initial cfg) < 2 ^ 128"
    and "\<And>g. fst (su_rng self g 0) = 0"
    and "\<And>w. isl (fst (su_connect self w)) = False"
  shows "sup_step self s t \<Longrightarrow> inv_first cfg s \<Longrightarrow> inv_first cfg t"
proof (induction rule: sup_step.induct)
  case (connect_fails w e w' b g sc sl)
  with assms(5) [of "fst w"] show ?case
    by (cases "su_connect self (fst w)") (auto simp: on_imap_def)
next
  case (session_ends w u w' sc out left w'' b g sl)
  then show ?case by (simp add: inv_first_def reset_def)
next
  case (sleeps b g d b' g' sc sl w)
  then have cfg: "bo_cfg b = cfg" and at: "bo_attempt b = 0" by (simp_all add: inv_first_def)
  obtain g1 where rng: "su_rng self g 0 = (0, g1)" using assms(4) [of g] by (metis prod.collapse)
  have "d = from_millis (of_nat (capped b))"
    using next_delay_exact [of b "su_rng self" g g1] rng cfg assms(1,2) sleeps(1) by simp
  moreover have "unat (of_nat (capped b) :: u64) = capped b"
  proof -
    have "capped b \<le> 2 ^ 51" using capped_le_max [of b] assms(2) cfg by simp
    then have "capped b < 2 ^ 64" by simp
    then show ?thesis by (simp add: unat_of_nat)
  qed
  ultimately have "as_millis d = min (as_millis (bc_initial cfg)) (as_millis (bc_max cfg))"
    using capped_first [OF at] cfg assms(3) by simp
  with sleeps show ?case using next_delay_cfg [OF sleeps(1)] by (auto simp: inv_first_def)
qed (auto simp: inv_first_def)

text \<open>Whatever the order of connection failures, sessions and sleeps, every delay is within bounds.\<close>

definition inv_delays :: "BackoffConfig \<Rightarrow> ('w, 'g) sup_state \<Rightarrow> bool" where
  "inv_delays cfg s = (case s of (ph, b, g, sc, sl, w) \<Rightarrow>
     bo_cfg b = cfg \<and>
     (\<forall>d \<in> set sl. min (as_millis (bc_initial cfg)) (as_millis (bc_max cfg)) div 2 \<le> as_millis d \<and>
        as_millis d \<le> as_millis (bc_max cfg)))"

lemma step_delays:
  assumes "bc_jitter cfg = Fin j" and "0 \<le> j" and "j \<le> 1" and "as_millis (bc_max cfg) \<le> 2 ^ 51"
    and "as_millis (bc_initial cfg) < 2 ^ 128"
    and "\<And>g. 0 \<le> fst (su_rng self g j)" and "\<And>g. fst (su_rng self g j) \<le> j"
  shows "sup_step self s t \<Longrightarrow> inv_delays cfg s \<Longrightarrow> inv_delays cfg t"
proof (induction rule: sup_step.induct)
  case (sleeps b g d b' g' sc sl w)
  then have cfg: "bo_cfg b = cfg" by (simp add: inv_delays_def)
  obtain x g1 where rng: "su_rng self g j = (x, g1)" by (rule prod.exhaust)
  with assms(6,7) [of g] have "0 \<le> x" and "x \<le> j" by simp_all
  with next_delay_bounds [of b j "su_rng self" g x g1] rng cfg assms sleeps(1)
  have "capped b div 2 \<le> as_millis d" and "as_millis d \<le> as_millis (bc_max cfg)" by auto
  moreover have "min (as_millis (bc_initial cfg)) (as_millis (bc_max cfg)) div 2 \<le> capped b div 2"
    using capped_ge [of b] cfg assms(5) by (intro div_le_mono) simp
  ultimately show ?case
    using sleeps next_delay_cfg [OF sleeps(1)] by (auto simp: inv_delays_def)
qed (auto simp: inv_delays_def)

text \<open>
  The supervisor while every connection fails: it sleeps the delays of successive attempts.
\<close>

lemma outage_delays:
  assumes "bc_jitter cfg = Fin 0" and "1 \<le> as_millis (bc_initial cfg)" and "as_millis (bc_max cfg) < 2 ^ 32"
    and "\<And>g. fst (su_rng self g 0) = 0" and "\<And>w. \<exists>e w'. su_connect self w = (Inl e, w')"
    and "bo_cfg b = cfg" and "bo_attempt b = attempts k"
  shows "map as_millis (fst (snd (supervise self b g (replicate (2 * n) False) sl w))) =
           map as_millis sl @ map (\<lambda>i. min (as_millis (bc_initial cfg) * 2 ^ i) (as_millis (bc_max cfg))) [k..<k + n]"
  using assms(6,7)
proof (induction n arbitrary: b k g sl w)
  case 0
  then show ?case by (subst supervise.simps) simp
next
  case (Suc n)
  obtain e w1 where "su_connect self (fst w) = (Inl e, w1)" using assms(5) by blast
  then have con: "on_imap (su_connect self) w = (Inl e, (w1, snd w))" by (simp add: on_imap_def)
  obtain g1 where rng: "su_rng self g 0 = (0, g1)" using assms(4) [of g] by (metis prod.collapse)
  let ?d = "from_millis (of_nat (capped b))" and ?b = "b\<lparr>bo_attempt := saturating_add (bo_attempt b) 1\<rparr>"
  have nd: "next_delay (su_rng self) b g = Some (?d, ?b, g1)"
    using next_delay_exact [of b "su_rng self" g g1] rng Suc.prems assms(1,3) by simp
  have c: "capped b = min (as_millis (bc_initial cfg) * 2 ^ k) (as_millis (bc_max cfg))"
    using capped_doubles [of b k] Suc.prems assms(2,3) by simp
  then have "capped b < 2 ^ 64" using assms(3) by simp
  then have d: "as_millis ?d = capped b" by (simp add: unat_of_nat)
  have "supervise self b g (replicate (2 * Suc n) False) sl w =
      supervise self ?b g1 (replicate (2 * n) False) (sl @ [?d]) (w1, snd w)"
    by (subst supervise.simps) (simp add: con, subst back_off.simps, simp add: nd)
  also have "map as_millis (fst (snd \<dots>)) = map as_millis (sl @ [?d]) @
      map (\<lambda>i. min (as_millis (bc_initial cfg) * 2 ^ i) (as_millis (bc_max cfg))) [Suc k..<Suc k + n]"
    by (rule Suc.IH) (simp_all add: Suc.prems attempts_Suc)
  also have "map as_millis (sl @ [?d]) =
      map as_millis sl @ [min (as_millis (bc_initial cfg) * 2 ^ k) (as_millis (bc_max cfg))]"
    by (simp only: map_append list.map trans [OF d c])
  also have "[Suc k..<Suc k + n] = tl [k..<k + Suc n]" by (simp add: upt_conv_Cons)
  finally show ?case by (simp add: upt_conv_Cons del: upt_Suc)
qed

section \<open>Properties\<close>

text \<open>A supervisor whose connections succeed, and one that writes the whole state.\<close>

definition sample_supervisor :: "(FakeImap, string, nat) Supervisor" where
  "sample_supervisor =
     \<lparr>su_connect = (\<lambda>w. (Inr (), w)), su_session = sample_session,
      su_backoff_cfg = bo_cfg (sample_backoff 0 0), su_rng = (\<lambda>g hi. (0, Suc g))\<rparr>"

definition durable_supervisor :: "(FakeImap, string, nat) Supervisor" where
  "durable_supervisor = sample_supervisor\<lparr>su_session := sample_session\<lparr>sm_serde := full_serde\<rparr>\<rparr>"

lemma durable_serde [simp]: "sm_serde (su_session durable_supervisor) = full_serde"
  by (simp add: durable_supervisor_def)

definition seen_file :: "u32 \<Rightarrow> disk" where
  "seen_file u = sample_disk\<lparr>files := [''/s/state.json'' \<mapsto> projr (to_vec full_serde (ss_state (sample_store u)))]\<rparr>"

lemma seen_file_clean: "tmp_clean ''/s/state.json'' (seen_file u)"
  using tmp_clean_files [OF tmp_clean_sample, of "seen_file u"] by (simp add: seen_file_def sample_disk_def)

lemma seen_file_parses: "files (seen_file u) ''/s/state.json'' = Some b \<Longrightarrow> from_slice full_serde b = Inr (ss_state (sample_store u))"
  using full_serde_parses_back by (auto simp: seen_file_def parses_back_def full_serde_def)

text \<open>
  C12. Over the whole life of the supervisor, however often it reconnects and whatever the servers
  answer, a recorded UIDVALIDITY is never replaced by another one and the recorded UID never goes
  back.
\<close>

theorem supervisor_progress:
  "progress (persisted w) (persisted (snd (snd (supervise self b g sched slept w))))"
  using memory.supervise_moves [of self "sm_serde (su_session self)" w]
  by (simp add: memory_moves_def persisted_def)

text \<open>
  C13. The state file is never ahead of the state in memory and never goes back, over the whole life
  of the supervisor: through every write that fails and every one that succeeds, the file, once it
  exists, parses to a state that the one in memory has progressed from, and what it parses to
  progresses from what it was at the start. The JSON of a state must parse back to it, and the names of
  temporary files must be unused.
\<close>

theorem state_file_progress:
  assumes "parses_back (sm_serde (su_session self))" and "consistent (sm_serde (su_session self)) (snd w)"
    and "file_state (sm_serde (su_session self)) (snd w) = Some s"
  shows "\<exists>s'. file_state (sm_serde (su_session self)) (snd (snd (snd (supervise self b g sched slept w)))) = Some s' \<and>
           progress s s' \<and> progress s' (persisted (snd (snd (supervise self b g sched slept w))))"
  using on_disk.supervise_moves [of self "sm_serde (su_session self)" w b g sched slept] assms
  by (auto simp: file_moves_def consistent_def file_state_def persisted_def)

theorem state_file_progress_witness:
  "\<exists>s'. file_state full_serde (snd (snd (snd (supervise durable_supervisor (sample_backoff 0 0) 0
       [False, False, True] [] (sample_fake [sample_msg 5], sample_store 4, seen_file 4))))) = Some s' \<and>
     progress (ss_state (sample_store 4)) s'"
proof -
  let ?w = "(sample_fake [sample_msg 5], sample_store 4, seen_file 4)"
  have f: "file_state full_serde (snd ?w) = Some (ss_state (sample_store 4))"
    using seen_file_parses [of 4] by (simp add: file_state_def sample_store_def seen_file_def)
  then have "consistent full_serde (snd ?w)"
    using seen_file_clean [of 4] by (simp add: consistent_def sample_store_def)
  with f state_file_progress [of durable_supervisor ?w "ss_state (sample_store 4)"
      "sample_backoff 0 0" 0 "[False, False, True]" "[]"] full_serde_parses_back
  show ?thesis by auto
qed

text \<open>
  C14. A restart resumes where the last run has been. Open the state file, run the supervisor on it
  until it ends or for as long as the schedule says, with whatever happens to the connections, the
  messages and the writes, and open the file again: the state the second start reads has progressed
  from the one the first start read, and is not ahead of what the first run had in memory.
\<close>

theorem restart_resumes:
  assumes "open_store serde path d = (Inr st, d1)" and "honest d" and "tmp_clean path d"
    and "parses_back serde" and "sm_serde (su_session self) = serde"
    and "supervise self b g sched slept (w, st, d1) = (ex, slept', (w', st', d2))"
    and "open_store serde path d2 = (Inr st2, d3)"
  shows "progress (ss_state st) (ss_state st2) \<and> progress (ss_state st2) (ss_state st')"
proof -
  note con = open_store_consistent [OF assms(1-3)]
  have path: "ss_path st = path" using open_store_state(1) [OF assms(1,2)] .
  have moved: "file_moves serde (st, d1) (st', d2)"
    using on_disk.supervise_moves [of self serde "(w, st, d1)" b g sched slept] assms(5,6) by simp
  then have "fault d2 = fault d" and con2: "consistent serde (st', d2)" and path': "ss_path st' = path"
    using open_store_files [OF assms(1)] con assms(4) path by (auto simp: file_moves_def)
  with assms(2) have "honest d2" by (simp add: honest_def)
  note second = open_store_state [OF assms(7) this]
  have same: "file_state serde (st', d2) = file_state serde (st2, d2)"
    using path' second(1) by (simp add: file_state_def)
  show ?thesis
  proof (cases "files d path")
    case None
    then have "ss_state st = default_State" using open_store_state(2) [OF assms(1,2)] by simp
    with con2 second same path' show ?thesis
      by (cases "files d2 path") (auto simp: consistent_def)
  next
    case (Some a)
    then have "file_state serde (st, d1) = Some (ss_state st)"
      using open_store_state(3) [OF assms(1,2)] open_store_files [OF assms(1)] by (simp add: file_state_def)
    with moved con assms(4) obtain s' where s': "file_state serde (st', d2) = Some s'" "progress (ss_state st) s'"
      by (auto simp: file_moves_def)
    then have "files d2 path \<noteq> None" using path' by (auto simp: file_state_def split: option.splits)
    with second(3) same s' con2 path' show ?thesis by (auto simp: consistent_def)
  qed
qed

theorem restart_resumes_witness:
  "\<exists>d2 st2 d3. d2 = snd (snd (snd (snd (supervise durable_supervisor (sample_backoff 0 0) 0 [False, False, True] []
       (sample_fake [sample_msg 5], sample_store 4, (seen_file 4)\<lparr>calls := 2\<rparr>))))) \<and>
     open_store full_serde ''/s/state.json'' d2 = (Inr st2, d3) \<and> progress (ss_state (sample_store 4)) (ss_state st2)"
proof -
  let ?d1 = "(seen_file 4)\<lparr>calls := 2\<rparr>"
  let ?w = "(sample_fake [sample_msg 5], sample_store 4, ?d1)"
  obtain ex sl w' st' d2 where
    sup: "supervise durable_supervisor (sample_backoff 0 0) 0 [False, False, True] [] ?w = (ex, sl, (w', st', d2))"
    by (metis prod_cases5)
  have "fault d2 n = None" for n
    using on_disk.supervise_moves [OF durable_serde, of ?w "sample_backoff 0 0" 0 "[False, False, True]" "[]"] sup
    by (simp add: file_moves_def seen_file_def sample_disk_def)
  then obtain st2 d3 where again: "open_store full_serde ''/s/state.json'' d2 = (Inr st2, d3)"
    using full_serde_opens by blast
  have first: "open_store full_serde ''/s/state.json'' (seen_file 4) = (Inr (sample_store 4), ?d1)"
    using seen_file_parses [of 4]
    by (simp add: open_store_def create_dir_all_def fs_read_def fs_call_def path_parent_def drop_slashes_def seen_file_def
        sample_disk_def sample_store_def)
  have "honest (seen_file 4)" by (simp add: honest_def seen_file_def sample_disk_def)
  from restart_resumes [OF first this seen_file_clean full_serde_parses_back durable_serde sup again] again sup
  show ?thesis by (intro exI conjI) auto
qed

text \<open>
  C22. Every delay the supervisor ever sleeps is at most the configured maximum, and at least half of
  the initial delay (or half of the maximum, if that is smaller), whatever fails in whatever order:
  it neither hammers the server nor stays away. The numbers drawn must lie in the range asked for.
\<close>

theorem slept_delays_bounded:
  assumes "bc_jitter cfg = Fin j" and "0 \<le> j" and "j \<le> 1" and "as_millis (bc_max cfg) \<le> 2 ^ 51"
    and "as_millis (bc_initial cfg) < 2 ^ 128"
    and "\<And>g. 0 \<le> fst (su_rng self g j)" and "\<And>g. fst (su_rng self g j) \<le> j"
    and "d \<in> set (fst (snd (supervise self (new_Backoff cfg) g sched [] w)))"
  shows "min (as_millis (bc_initial cfg)) (as_millis (bc_max cfg)) div 2 \<le> as_millis d \<and>
         as_millis d \<le> as_millis (bc_max cfg)"
proof -
  obtain ex sl' w' where sup: "supervise self (new_Backoff cfg) g sched [] w = (ex, sl', w')"
    by (metis prod_cases3)
  from supervise_reaches(1) [OF sup] obtain b' g' sc' where
    "reaches self (Connecting, new_Backoff cfg, g, sched, [], w) (Stopped ex, b', g', sc', sl', w')" by blast
  then have "inv_delays cfg (Stopped ex, b', g', sc', sl', w')"
    by (rule reaches_invariant [OF _ _ step_delays [OF assms(1-7)]])
       (simp_all add: inv_delays_def new_Backoff_def)
  with sup assms(8) show ?thesis by (simp add: inv_delays_def)
qed

theorem slept_delays_bounded_witness:
  "list_all (\<lambda>d. 2500 \<le> as_millis d \<and> as_millis d \<le> 300000) (fst (snd (supervise
       (sample_supervisor\<lparr>su_rng := (\<lambda>g j. (j / 2, g))\<rparr>) (new_Backoff (bo_cfg (sample_backoff (1 / 2) 0)))
       0 [False, False, False, False, True] [] sample_start)))"
  unfolding list_all_iff
proof
  fix d
  let ?s = "sample_supervisor\<lparr>su_rng := (\<lambda>g j. (j / 2, g))\<rparr>"
  let ?cfg = "bo_cfg (sample_backoff (1 / 2) 0)"
  assume "d \<in> set (fst (snd (supervise ?s (new_Backoff ?cfg) 0 [False, False, False, False, True] [] sample_start)))"
  then have "min (as_millis (bc_initial ?cfg)) (as_millis (bc_max ?cfg)) div 2 \<le> as_millis d \<and>
      as_millis d \<le> as_millis (bc_max ?cfg)"
    by (rule slept_delays_bounded [of _ "1 / 2", rotated 7])
       (simp_all add: sample_backoff_def from_secs_def as_millis_def)
  then show "2500 \<le> as_millis d \<and> as_millis d \<le> 300000"
    by (simp add: sample_backoff_def from_secs_def as_millis_def)
qed

text \<open>
  C23. An outage is waited out with exponential back-off: as long as every connection fails, and
  without jitter, the delays slept are exactly the initial one, doubled each time until the maximum
  caps it, for any number of attempts; none of the saturating operations shows.
\<close>

theorem outage_backs_off:
  assumes "bc_jitter cfg = Fin 0" and "1 \<le> as_millis (bc_initial cfg)" and "as_millis (bc_max cfg) < 2 ^ 32"
    and "\<And>g. fst (su_rng self g 0) = 0" and "\<And>w. \<exists>e w'. su_connect self w = (Inl e, w')"
  shows "map as_millis (fst (snd (supervise self (new_Backoff cfg) g (replicate (2 * n) False) [] w))) =
           map (\<lambda>k. min (as_millis (bc_initial cfg) * 2 ^ k) (as_millis (bc_max cfg))) [0..<n]"
  using outage_delays [OF assms, of "new_Backoff cfg" 0] by (simp add: new_Backoff_def)

theorem outage_backs_off_witness:
  "map as_millis (fst (snd (supervise (sample_supervisor\<lparr>su_connect := (\<lambda>w. (Inl (Imap ''refused''), w))\<rparr>)
       (new_Backoff (bo_cfg (sample_backoff 0 0))) 0 (replicate 16 False) [] sample_start))) =
     [5000, 10000, 20000, 40000, 80000, 160000, 300000, 300000]"
  using outage_backs_off [of "bo_cfg (sample_backoff 0 0)"
      "sample_supervisor\<lparr>su_connect := (\<lambda>w. (Inl (Imap ''refused''), w))\<rparr>" 0 8 sample_start]
  by (simp add: sample_backoff_def sample_supervisor_def from_secs_def as_millis_def upt_conv_Cons)

text \<open>
  C10. How the supervisor ends, if its jitter is a valid one: gracefully, and then only because a
  shutdown was asked for, or with a changed UIDVALIDITY. It does not panic, and no other error of
  a connection or a session ends it, a missing IDLE extension included: those are retried without
  limit.
\<close>

theorem supervisor_exit:
  assumes "supervise self b g sched slept w = (Some ex, slept', w')"
    and "bc_jitter (bo_cfg b) = Fin j" and "0 \<le> j"
  shows "(ex = Graceful \<and> True \<in> set sched) \<or> (\<exists>c s. ex = Failed (UidValidityChanged c s))"
  using supervise_ends [OF assms] by (cases ex) (auto simp: is_UidValidityChanged_def)

theorem supervisor_exit_witness:
  "(Graceful = Graceful \<and> True \<in> set [True]) \<or> (\<exists>c s. Graceful = Failed (UidValidityChanged c s))"
proof (rule supervisor_exit)
  show "supervise sample_supervisor (sample_backoff 0 0) 0 [True] [] sample_start = (Some Graceful, [], sample_start)"
    by (subst supervise.simps) simp
  show "bc_jitter (bo_cfg (sample_backoff 0 0)) = Fin 0" by (simp add: sample_backoff_def)
qed simp

text \<open>
  C11. A shutdown is always honoured: if the schedule asks for one, at any of the points where the
  supervisor or a session waits, the supervisor ends, in spite of all connection errors, session
  errors and delays before it.
\<close>

theorem shutdown_ends_supervisor:
  assumes "True \<in> set sched"
  shows "\<exists>ex. fst (supervise self b g sched slept w) = Some ex"
proof -
  obtain ex sl' w' where sup: "supervise self b g sched slept w = (ex, sl', w')"
    by (metis prod_cases3)
  from supervise_reaches(1) [OF sup] obtain b' g' sc' where
    "reaches self (Connecting, b, g, sched, slept, w) (Stopped ex, b', g', sc', sl', w')" by blast
  then have "inv_pending (Stopped ex, b', g', sc', sl', w')"
    by (rule reaches_invariant [OF _ _ step_pending]) (use assms in \<open>simp_all add: inv_pending_def\<close>)
  with sup show ?thesis by (simp add: inv_pending_def)
qed

theorem shutdown_ends_supervisor_witness:
  "\<exists>ex. fst (supervise sample_supervisor (sample_backoff 0 0) 0 [False, False, True] [] sample_start) = Some ex"
  by (rule shutdown_ends_supervisor) simp

text \<open>
  C32. Session errors do not back off: where every connection succeeds and there is no jitter,
  every delay is the initial one (capped by the maximum), however many sessions fail one after the
  other, because the counter is reset as soon as the connection is made.
\<close>

theorem session_errors_do_not_back_off:
  assumes "bc_jitter cfg = Fin 0" and "as_millis (bc_max cfg) \<le> 2 ^ 51"
    and "as_millis (bc_initial cfg) < 2 ^ 128"
    and "\<And>g. fst (su_rng self g 0) = 0"
    and "\<And>w. isl (fst (su_connect self w)) = False"
    and "d \<in> set (fst (snd (supervise self (new_Backoff cfg) g sched [] w)))"
  shows "as_millis d = min (as_millis (bc_initial cfg)) (as_millis (bc_max cfg))"
proof -
  obtain ex sl' w' where sup: "supervise self (new_Backoff cfg) g sched [] w = (ex, sl', w')"
    by (metis prod_cases3)
  from supervise_reaches(1) [OF sup] obtain b' g' sc' where
    "reaches self (Connecting, new_Backoff cfg, g, sched, [], w) (Stopped ex, b', g', sc', sl', w')" by blast
  then have "inv_first cfg (Stopped ex, b', g', sc', sl', w')"
    by (rule reaches_invariant [OF _ _ step_first [OF assms(1-5)]])
       (simp_all add: inv_first_def new_Backoff_def)
  with sup assms(6) show ?thesis by (simp add: inv_first_def)
qed

theorem session_errors_do_not_back_off_witness:
  "list_all (\<lambda>d. as_millis d = 5000) (fst (snd (supervise
       (sample_supervisor\<lparr>su_session := sample_session\<lparr>sm_imap := fake_imap\<lparr>capabilities := (\<lambda>w. (Inl (Imap ''x''), w))\<rparr>\<rparr>\<rparr>)
       (new_Backoff (bo_cfg (sample_backoff 0 0))) 0 [False, False, False, False, True] [] sample_start)))"
  unfolding list_all_iff
proof
  fix d
  let ?s = "sample_supervisor\<lparr>su_session := sample_session\<lparr>sm_imap := fake_imap\<lparr>capabilities := (\<lambda>w. (Inl (Imap ''x''), w))\<rparr>\<rparr>\<rparr>"
  let ?cfg = "bo_cfg (sample_backoff 0 0)"
  assume "d \<in> set (fst (snd (supervise ?s (new_Backoff ?cfg) 0 [False, False, False, False, True] [] sample_start)))"
  then have "as_millis d = min (as_millis (bc_initial ?cfg)) (as_millis (bc_max ?cfg))"
    by (rule session_errors_do_not_back_off [rotated 5])
       (simp_all add: sample_backoff_def sample_supervisor_def from_secs_def as_millis_def)
  then show "as_millis d = 5000"
    by (simp add: sample_backoff_def from_secs_def as_millis_def)
qed

end
