(* ===== verification/Config.thy ===== *)
theory Config
  imports F64 Utf8 Types
begin

text \<open>
  \<open>crates/config/src/lib.rs\<close>: the configuration structs, the serde defaults, \<open>load\<close> and
  \<open>validate\<close>, and how secrets are resolved. The TOML reader is third-party code: a parameter
  that turns a text into the raw tables, in which every key may be absent; \<open>deserialize\<close> is what
  the \<open>#[serde(default)]\<close> attributes make of them. Reading a file and running a shell command are
  parameters too (\<open>read\<close>, \<open>command\<close>).
\<close>

section \<open>The structs\<close>

datatype AuthMethod = Plain | Oauth2
datatype ImapTlsMode = Implicit | Starttls | PlainTcp

record ImapConfig =
  ic_host :: string
  ic_port :: u16
  ic_username :: string
  ic_auth_method :: AuthMethod
  ic_password :: "string option"
  ic_password_command :: "string option"
  ic_token_command :: "string option"
  ic_tls_mode :: ImapTlsMode
  ic_mailbox :: string

record SieveConfig =
  sc_script_path :: string
  sc_watch :: bool

record DaemonConfig =
  dc_batch_size :: u64
  dc_reconnect_delay :: u64
  dc_max_reconnect_delay :: u64
  dc_reconnect_jitter :: f64
  dc_state_dir :: "string option"

record LoggingConfig =
  lc_level :: string
  lc_file :: "string option"

record SmtpConfig =
  smc_host :: string
  smc_port :: u16
  smc_username :: string
  smc_password :: "string option"
  smc_password_command :: "string option"
  smc_starttls :: bool

record Config =
  cfg_imap :: ImapConfig
  cfg_sieve :: SieveConfig
  cfg_daemon :: DaemonConfig
  cfg_logging :: LoggingConfig
  cfg_smtp :: "SmtpConfig option"

datatype ConfigError =
    ConfigIo io_error
  | Parse string
  | Invalid string
  | PasswordCommand string

section \<open>Defaults\<close>

definition default_tls_mode :: ImapTlsMode where "default_tls_mode = Implicit"
definition default_mailbox :: string where "default_mailbox = ''INBOX''"
definition default_batch_size :: u64 where "default_batch_size = 10"
definition default_reconnect_delay :: u64 where "default_reconnect_delay = 5"
definition default_max_reconnect_delay :: u64 where "default_max_reconnect_delay = 300"
definition default_reconnect_jitter :: f64 where "default_reconnect_jitter = Fin (1 / 2)"
definition default_log_level :: string where "default_log_level = ''info''"
definition default_true :: bool where "default_true = True"

definition default_DaemonConfig :: DaemonConfig where
  "default_DaemonConfig =
     \<lparr>dc_batch_size = default_batch_size, dc_reconnect_delay = default_reconnect_delay,
      dc_max_reconnect_delay = default_max_reconnect_delay,
      dc_reconnect_jitter = default_reconnect_jitter, dc_state_dir = None\<rparr>"

definition default_LoggingConfig :: LoggingConfig where
  "default_LoggingConfig = \<lparr>lc_level = default_log_level, lc_file = None\<rparr>"

text \<open>The tables as the TOML reader finds them: every key may be absent.\<close>

record raw_imap =
  ri_host :: "string option"
  ri_port :: "u16 option"
  ri_username :: "string option"
  ri_auth_method :: "AuthMethod option"
  ri_password :: "string option"
  ri_password_command :: "string option"
  ri_token_command :: "string option"
  ri_tls_mode :: "ImapTlsMode option"
  ri_mailbox :: "string option"

record raw_sieve =
  rs_script_path :: "string option"
  rs_watch :: "bool option"

record raw_daemon =
  rd_batch_size :: "u64 option"
  rd_reconnect_delay :: "u64 option"
  rd_max_reconnect_delay :: "u64 option"
  rd_reconnect_jitter :: "f64 option"
  rd_state_dir :: "string option"

record raw_logging =
  rl_level :: "string option"
  rl_file :: "string option"

record raw_smtp =
  rm_host :: "string option"
  rm_port :: "u16 option"
  rm_username :: "string option"
  rm_password :: "string option"
  rm_password_command :: "string option"
  rm_starttls :: "bool option"

record raw_config =
  raw_imap_table :: "raw_imap option"
  raw_sieve_table :: "raw_sieve option"
  raw_daemon_table :: "raw_daemon option"
  raw_logging_table :: "raw_logging option"
  raw_smtp_table :: "raw_smtp option"

definition or_default :: "'a \<Rightarrow> 'a option \<Rightarrow> 'a" where
  "or_default d x = (case x of None \<Rightarrow> d | Some a \<Rightarrow> a)"

definition deserialize_imap :: "raw_imap \<Rightarrow> string + ImapConfig" where
  "deserialize_imap r =
     (case (ri_host r, ri_port r, ri_username r) of
        (Some h, Some p, Some u) \<Rightarrow>
          Inr \<lparr>ic_host = h, ic_port = p, ic_username = u,
               ic_auth_method = or_default Plain (ri_auth_method r),
               ic_password = ri_password r, ic_password_command = ri_password_command r,
               ic_token_command = ri_token_command r,
               ic_tls_mode = or_default default_tls_mode (ri_tls_mode r),
               ic_mailbox = or_default default_mailbox (ri_mailbox r)\<rparr>
      | _ \<Rightarrow> Inl ''missing field'')"

definition deserialize_sieve :: "raw_sieve \<Rightarrow> string + SieveConfig" where
  "deserialize_sieve r =
     (case rs_script_path r of
        Some p \<Rightarrow> Inr \<lparr>sc_script_path = p, sc_watch = or_default False (rs_watch r)\<rparr>
      | None \<Rightarrow> Inl ''missing field'')"

definition deserialize_daemon :: "raw_daemon \<Rightarrow> DaemonConfig" where
  "deserialize_daemon r =
     \<lparr>dc_batch_size = or_default default_batch_size (rd_batch_size r),
      dc_reconnect_delay = or_default default_reconnect_delay (rd_reconnect_delay r),
      dc_max_reconnect_delay = or_default default_max_reconnect_delay (rd_max_reconnect_delay r),
      dc_reconnect_jitter = or_default default_reconnect_jitter (rd_reconnect_jitter r),
      dc_state_dir = rd_state_dir r\<rparr>"

definition deserialize_logging :: "raw_logging \<Rightarrow> LoggingConfig" where
  "deserialize_logging r =
     \<lparr>lc_level = or_default default_log_level (rl_level r), lc_file = rl_file r\<rparr>"

definition deserialize_smtp :: "raw_smtp \<Rightarrow> string + SmtpConfig" where
  "deserialize_smtp r =
     (case (rm_host r, rm_port r, rm_username r) of
        (Some h, Some p, Some u) \<Rightarrow>
          Inr \<lparr>smc_host = h, smc_port = p, smc_username = u, smc_password = rm_password r,
               smc_password_command = rm_password_command r,
               smc_starttls = or_default default_true (rm_starttls r)\<rparr>
      | _ \<Rightarrow> Inl ''missing field'')"

definition deserialize :: "raw_config \<Rightarrow> string + Config" where
  "deserialize r =
     (case raw_imap_table r of
        None \<Rightarrow> Inl ''missing field''
      | Some ri \<Rightarrow>
     case raw_sieve_table r of
        None \<Rightarrow> Inl ''missing field''
      | Some rs \<Rightarrow>
     case deserialize_imap ri of
        Inl e \<Rightarrow> Inl e
      | Inr im \<Rightarrow>
     case deserialize_sieve rs of
        Inl e \<Rightarrow> Inl e
      | Inr si \<Rightarrow>
     case (case raw_smtp_table r of
             None \<Rightarrow> Inr None
           | Some rm \<Rightarrow> (case deserialize_smtp rm of Inl e \<Rightarrow> Inl e | Inr s \<Rightarrow> Inr (Some s))) of
        Inl e \<Rightarrow> Inl e
      | Inr sm \<Rightarrow>
          Inr \<lparr>cfg_imap = im, cfg_sieve = si,
               cfg_daemon = (case raw_daemon_table r of
                  None \<Rightarrow> default_DaemonConfig | Some rd \<Rightarrow> deserialize_daemon rd),
               cfg_logging = (case raw_logging_table r of
                  None \<Rightarrow> default_LoggingConfig | Some rl \<Rightarrow> deserialize_logging rl),
               cfg_smtp = sm\<rparr>)"

section \<open>Validation and loading\<close>

text \<open>\<open>(0.0..=1.0).contains(&x)\<close>: comparisons with NaN are false.\<close>

fun unit_interval_contains :: "f64 \<Rightarrow> bool" where
  "unit_interval_contains (Fin x) \<longleftrightarrow> 0 \<le> x \<and> x \<le> 1"
| "unit_interval_contains _ \<longleftrightarrow> False"

definition validate :: "Config \<Rightarrow> ConfigError + unit" where
  "validate self =
     (if ic_host (cfg_imap self) = [] then Inl (Invalid ''imap.host must not be empty'')
      else if ic_port (cfg_imap self) = 0 then Inl (Invalid ''imap.port must not be 0'')
      else if ic_auth_method (cfg_imap self) = Plain \<and> ic_password (cfg_imap self) = None \<and>
              ic_password_command (cfg_imap self) = None
      then Inl (Invalid ''imap.password or imap.password_command required for auth_method = plain'')
      else if ic_auth_method (cfg_imap self) = Oauth2
      then Inl (Invalid ''auth_method = oauth2 is not yet implemented'')
      else
        (case (case cfg_smtp self of
                 None \<Rightarrow> None
               | Some smtp \<Rightarrow>
                   if smc_host smtp = [] then Some ''smtp.host must not be empty''
                   else if smc_username smtp = [] then Some ''smtp.username must not be empty''
                   else if smc_password smtp = None \<and> smc_password_command smtp = None
                   then Some ''smtp.password or smtp.password_command required''
                   else None) of
           Some m \<Rightarrow> Inl (Invalid m)
         | None \<Rightarrow>
             if \<not> unit_interval_contains (dc_reconnect_jitter (cfg_daemon self))
             then Inl (Invalid ''daemon.reconnect_jitter must be between 0.0 and 1.0'')
             else if dc_batch_size (cfg_daemon self) = 0
             then Inl (Invalid ''daemon.batch_size must be > 0'')
             else Inr ()))"

text \<open>\<open>std::fs::read_to_string\<close> over a file reader: the bytes must be UTF-8.\<close>

type_synonym reader = "string \<Rightarrow> io_error + bytes"

definition read_to_string :: "reader \<Rightarrow> string \<Rightarrow> io_error + string" where
  "read_to_string read path =
     (case read path of
        Inl e \<Rightarrow> Inl e
      | Inr b \<Rightarrow> if from_utf8_lossy b = b then Inr b
                else Inl (OtherIo ''stream did not contain valid UTF-8''))"

definition load :: "reader \<Rightarrow> (string \<Rightarrow> string + raw_config) \<Rightarrow> string \<Rightarrow> ConfigError + Config" where
  "load read toml path =
     (case read_to_string read path of
        Inl e \<Rightarrow> Inl (ConfigIo e)
      | Inr text \<Rightarrow>
     case (case toml text of Inl e \<Rightarrow> Inl e | Inr raw \<Rightarrow> deserialize raw) of
        Inl e \<Rightarrow> Inl (Parse e)
      | Inr cfg \<Rightarrow>
     case validate cfg of
        Inl e \<Rightarrow> Inl e
      | Inr _ \<Rightarrow> Inr cfg)"

section \<open>Secrets\<close>

text \<open>The result of running a child process to its end.\<close>

record process_output =
  out_success :: bool
  out_status :: string
  out_stdout :: bytes
  out_stderr :: bytes

type_synonym runner = "string \<Rightarrow> string list \<Rightarrow> string + process_output"

definition run_secret_command :: "bool \<Rightarrow> runner \<Rightarrow> string \<Rightarrow> ConfigError + string" where
  "run_secret_command windows command cmd =
     (case (if windows then command ''cmd'' [''/C'', cmd] else command ''sh'' [''-c'', cmd]) of
        Inl e \<Rightarrow> Inl (PasswordCommand e)
      | Inr out \<Rightarrow>
          if \<not> out_success out
          then Inl (PasswordCommand (''command exited with status '' @ out_status out @ '': ''
                     @ from_utf8_lossy (out_stderr out)))
          else let secret = trim_end_matches {LF, CR} (from_utf8_lossy (out_stdout out)) in
               if secret = [] then Inl (PasswordCommand ''empty output'') else Inr secret)"

definition resolve_secret ::
    "bool \<Rightarrow> runner \<Rightarrow> string option \<Rightarrow> string option \<Rightarrow> ConfigError + string" where
  "resolve_secret windows command literal cmd =
     (case literal of
        Some s \<Rightarrow> Inr s
      | None \<Rightarrow>
     case cmd of
        Some c \<Rightarrow> run_secret_command windows command c
      | None \<Rightarrow> Inl (Invalid ''no secret available (literal or command)''))"

definition imap_resolve_password :: "bool \<Rightarrow> runner \<Rightarrow> ImapConfig \<Rightarrow> ConfigError + string" where
  "imap_resolve_password windows command self =
     resolve_secret windows command (ic_password self) (ic_password_command self)"

definition resolve_oauth_token :: "bool \<Rightarrow> runner \<Rightarrow> ImapConfig \<Rightarrow> ConfigError + string" where
  "resolve_oauth_token windows command self =
     (case ic_token_command self of
        Some cmd \<Rightarrow> run_secret_command windows command cmd
      | None \<Rightarrow> Inl (Invalid ''token_command not configured''))"

definition smtp_resolve_password :: "bool \<Rightarrow> runner \<Rightarrow> SmtpConfig \<Rightarrow> ConfigError + string" where
  "smtp_resolve_password windows command self =
     resolve_secret windows command (smc_password self) (smc_password_command self)"

section \<open>What a loaded configuration guarantees\<close>

text \<open>The constraints the README lists under "Validation".\<close>

definition valid_imap :: "ImapConfig \<Rightarrow> bool" where
  "valid_imap c \<longleftrightarrow>
     ic_host c \<noteq> [] \<and> ic_port c \<noteq> 0 \<and> ic_auth_method c = Plain \<and>
     (ic_password c \<noteq> None \<or> ic_password_command c \<noteq> None)"

definition valid_smtp :: "SmtpConfig \<Rightarrow> bool" where
  "valid_smtp c \<longleftrightarrow>
     smc_host c \<noteq> [] \<and> smc_username c \<noteq> [] \<and> (smc_password c \<noteq> None \<or> smc_password_command c \<noteq> None)"

definition valid_daemon :: "DaemonConfig \<Rightarrow> bool" where
  "valid_daemon c \<longleftrightarrow> unit_interval_contains (dc_reconnect_jitter c) \<and> dc_batch_size c \<noteq> 0"

definition valid_config :: "Config \<Rightarrow> bool" where
  "valid_config c \<longleftrightarrow>
     valid_imap (cfg_imap c) \<and> (\<forall>s. cfg_smtp c = Some s \<longrightarrow> valid_smtp s) \<and> valid_daemon (cfg_daemon c)"

lemma validate_Ok: "validate c = Inr () \<longleftrightarrow> valid_config c"
  by (cases "ic_auth_method (cfg_imap c)"; cases "cfg_smtp c")
     (auto simp: validate_def valid_config_def valid_imap_def valid_smtp_def valid_daemon_def)

lemma validate_Err: "validate c = Inl e \<Longrightarrow> \<exists>m. e = Invalid m"
  by (auto simp: validate_def split: option.splits if_splits)

lemma load_Ok: "load read toml path = Inr c \<Longrightarrow> valid_config c"
  by (auto simp: load_def validate_Ok [symmetric] split: sum.splits)

lemma run_secret_command_Ok:
  assumes "run_secret_command windows command cmd = Inr s"
  shows "s \<noteq> []" and "last s \<notin> {LF, CR}"
proof -
  from assms obtain t where "s = trim_end_matches {LF, CR} t" and "s \<noteq> []"
    by (auto simp: run_secret_command_def Let_def split: sum.splits if_splits)
  then show "s \<noteq> []" and "last s \<notin> {LF, CR}"
    using trim_end_matches_last [of "{LF, CR}" t] by simp_all
qed

lemma run_secret_command_Err:
  "run_secret_command windows command cmd = Inl e \<Longrightarrow> \<exists>m. e = PasswordCommand m"
  by (auto simp: run_secret_command_def Let_def split: sum.splits if_splits)

lemma resolve_secret_Invalid:
  "resolve_secret windows command lit cmd = Inl (Invalid m) \<Longrightarrow> lit = None \<and> cmd = None"
  by (auto simp: resolve_secret_def split: option.splits dest: run_secret_command_Err)

section \<open>Properties\<close>

text \<open>
  Validation accepts exactly the configurations the README's list of constraints describes: a
  host and a non-zero port, plain authentication with a password or a command for one, a complete
  \<open>[smtp]\<close> table if there is one, a jitter in \<open>[0, 1]\<close> (which excludes NaN and the infinities)
  and a positive batch size.
\<close>

theorem validate_accepts:
  "(validate c = Inr ()) =
     ((ic_host (cfg_imap c) \<noteq> [] \<and> ic_port (cfg_imap c) \<noteq> 0 \<and> ic_auth_method (cfg_imap c) = Plain \<and>
       (ic_password (cfg_imap c), ic_password_command (cfg_imap c)) \<noteq> (None, None)) \<and>
      (case cfg_smtp c of
         None \<Rightarrow> True
       | Some s \<Rightarrow> smc_host s \<noteq> [] \<and> smc_username s \<noteq> [] \<and>
                   (smc_password s, smc_password_command s) \<noteq> (None, None)) \<and>
      (\<exists>j. dc_reconnect_jitter (cfg_daemon c) = Fin j \<and> 0 \<le> j \<and> j \<le> 1) \<and>
      dc_batch_size (cfg_daemon c) \<noteq> 0)"
  unfolding validate_Ok valid_config_def valid_imap_def valid_smtp_def valid_daemon_def
  by (cases "dc_reconnect_jitter (cfg_daemon c)"; cases "cfg_smtp c") auto

text \<open>
  C39. A configuration that was loaded always has a secret to resolve: resolving its IMAP or SMTP
  password can only fail because the command for it failed.
\<close>

theorem loaded_secrets:
  assumes "load read toml path = Inr c"
    and "imap_resolve_password windows command (cfg_imap c) = Inl e \<or>
         (\<exists>s. cfg_smtp c = Some s \<and> smtp_resolve_password windows command s = Inl e)"
  shows "\<exists>m. e = PasswordCommand m"
proof -
  from load_Ok [OF assms(1)] have "valid_config c" .
  with assms(2) show ?thesis
    by (auto simp: valid_config_def valid_imap_def valid_smtp_def imap_resolve_password_def
        smtp_resolve_password_def resolve_secret_def dest: run_secret_command_Err split: option.splits)
qed

definition sample_raw :: raw_config where
  "sample_raw =
     \<lparr>raw_imap_table = Some \<lparr>ri_host = Some ''h'', ri_port = Some 993, ri_username = Some ''u'',
        ri_auth_method = None, ri_password = None, ri_password_command = Some ''pass show m'',
        ri_token_command = None, ri_tls_mode = None, ri_mailbox = None\<rparr>,
      raw_sieve_table = Some \<lparr>rs_script_path = Some ''/s'', rs_watch = None\<rparr>,
      raw_daemon_table = Some \<lparr>rd_batch_size = None, rd_reconnect_delay = None,
        rd_max_reconnect_delay = None, rd_reconnect_jitter = None, rd_state_dir = None\<rparr>,
      raw_logging_table = None, raw_smtp_table = None\<rparr>"

lemma sample_load:
  "load (\<lambda>_. Inr []) (\<lambda>_. Inr sample_raw) ''/c'' = Inr (projr (deserialize sample_raw))"
  "projr (deserialize sample_raw) =
     \<lparr>cfg_imap = \<lparr>ic_host = ''h'', ic_port = 993, ic_username = ''u'', ic_auth_method = Plain,
        ic_password = None, ic_password_command = Some ''pass show m'', ic_token_command = None,
        ic_tls_mode = Implicit, ic_mailbox = ''INBOX''\<rparr>,
      cfg_sieve = \<lparr>sc_script_path = ''/s'', sc_watch = False\<rparr>,
      cfg_daemon = default_DaemonConfig, cfg_logging = default_LoggingConfig, cfg_smtp = None\<rparr>"
  by (simp_all add: load_def read_to_string_def sample_raw_def deserialize_def deserialize_imap_def
      deserialize_sieve_def deserialize_daemon_def or_default_def validate_def default_DaemonConfig_def
      default_reconnect_jitter_def default_batch_size_def default_mailbox_def default_tls_mode_def)

theorem loaded_secrets_witness:
  "\<exists>m. imap_resolve_password False (\<lambda>_ _. Inr \<lparr>out_success = True, out_status = ''0'', out_stdout = [LF], out_stderr = []\<rparr>)
         (cfg_imap (projr (deserialize sample_raw))) = Inl (PasswordCommand m)"
proof -
  let ?run = "\<lambda>_ _. Inr \<lparr>out_success = True, out_status = ''0'', out_stdout = [LF], out_stderr = []\<rparr>"
  obtain e where e: "imap_resolve_password False ?run (cfg_imap (projr (deserialize sample_raw))) = Inl e"
    by (simp add: sample_load(2) imap_resolve_password_def resolve_secret_def run_secret_command_def
        trim_end_matches_def byte_def)
  with loaded_secrets [OF sample_load(1)] have "\<exists>m. e = PasswordCommand m" by blast
  with e show ?thesis by blast
qed

text \<open>
  C40. A secret taken from a command is what the command printed, as UTF-8, without the line ends
  at its very end and with nothing else removed; it is not empty and does not end in a line end.
\<close>

theorem secret_from_command:
  assumes "run_secret_command windows command cmd = Inr secret"
  shows "secret \<noteq> [] \<and> last secret \<notin> {LF, CR} \<and>
         (\<exists>out ends. (if windows then command ''cmd'' [''/C'', cmd] else command ''sh'' [''-c'', cmd]) = Inr out \<and>
            out_success out \<and> from_utf8_lossy (out_stdout out) = secret @ ends \<and> set ends \<subseteq> {LF, CR})"
proof -
  from assms obtain out where
    run: "(if windows then command ''cmd'' [''/C'', cmd] else command ''sh'' [''-c'', cmd]) = Inr out"
    and ok: "out_success out" and secret: "secret = trim_end_matches {LF, CR} (from_utf8_lossy (out_stdout out))"
    by (auto simp: run_secret_command_def Let_def split: sum.splits if_splits)
  from trim_end_matches_decomp [of "from_utf8_lossy (out_stdout out)" "{LF, CR}"] obtain ends
    where "from_utf8_lossy (out_stdout out) = secret @ ends" and "set ends \<subseteq> {LF, CR}"
    unfolding secret by blast
  with run ok run_secret_command_Ok [OF assms] show ?thesis by blast
qed

theorem secret_from_command_witness:
  "\<exists>secret. run_secret_command False (\<lambda>_ _. Inr \<lparr>out_success = True, out_status = ''0'',
       out_stdout = ''pw'' @ [CR, LF], out_stderr = []\<rparr>) ''x'' = Inr secret \<and> secret \<noteq> [] \<and> last secret \<notin> {LF, CR}"
proof -
  let ?run = "\<lambda>_ _. Inr \<lparr>out_success = True, out_status = ''0'', out_stdout = ''pw'' @ [CR, LF], out_stderr = []\<rparr>"
  have run: "run_secret_command False ?run ''x'' = Inr ''pw''"
    by (simp add: run_secret_command_def trim_end_matches_def byte_def)
  then show ?thesis using secret_from_command [OF run] by blast
qed

text \<open>
  The defaults: a file with only the required keys of \<open>[imap]\<close>, a script path and a password
  command is accepted, and stands for the implicit TLS mode, the mailbox INBOX, batches of 10,
  delays of 5 to 300 seconds with a jitter of a half, the level \<open>info\<close>, and no watcher.
\<close>

theorem minimal_config:
  assumes "ri_host ri = Some h" and "ri_port ri = Some p" and "ri_username ri = Some u"
    and "ri_auth_method ri = None" and "ri_tls_mode ri = None" and "ri_mailbox ri = None"
    and "ri_password_command ri = Some cmd" and "rs_script_path rs = Some path" and "rs_watch rs = None"
    and "h \<noteq> []" and "p \<noteq> 0"
    and "toml text = Inr \<lparr>raw_imap_table = Some ri, raw_sieve_table = Some rs, raw_daemon_table = None,
                          raw_logging_table = None, raw_smtp_table = None\<rparr>"
    and "read_to_string read file = Inr text"
  shows "\<exists>c. load read toml file = Inr c \<and>
           ic_auth_method (cfg_imap c) = Plain \<and> ic_tls_mode (cfg_imap c) = Implicit \<and>
           ic_mailbox (cfg_imap c) = ''INBOX'' \<and> \<not> sc_watch (cfg_sieve c) \<and>
           cfg_daemon c = \<lparr>dc_batch_size = 10, dc_reconnect_delay = 5, dc_max_reconnect_delay = 300,
                           dc_reconnect_jitter = Fin (1 / 2), dc_state_dir = None\<rparr> \<and>
           lc_level (cfg_logging c) = ''info'' \<and> cfg_smtp c = None"
  using assms
  by (simp add: load_def deserialize_def deserialize_imap_def deserialize_sieve_def or_default_def
      validate_def default_DaemonConfig_def default_LoggingConfig_def default_reconnect_jitter_def
      default_batch_size_def default_mailbox_def default_tls_mode_def default_log_level_def
      default_reconnect_delay_def default_max_reconnect_delay_def)

theorem minimal_config_witness:
  "\<exists>c. load (\<lambda>_. Inr []) (\<lambda>_. Inr \<lparr>raw_imap_table = raw_imap_table sample_raw,
        raw_sieve_table = raw_sieve_table sample_raw, raw_daemon_table = None,
        raw_logging_table = None, raw_smtp_table = None\<rparr>) ''/c'' = Inr c \<and> ic_mailbox (cfg_imap c) = ''INBOX''"
  using minimal_config [of "the (raw_imap_table sample_raw)" "''h''" 993 "''u''" "''pass show m''"
      "the (raw_sieve_table sample_raw)" "''/s''"
      "\<lambda>_. Inr \<lparr>raw_imap_table = raw_imap_table sample_raw,
        raw_sieve_table = raw_sieve_table sample_raw, raw_daemon_table = None,
        raw_logging_table = None, raw_smtp_table = None\<rparr>" "[]" "\<lambda>_. Inr []" "''/c''"]
  by (auto simp: sample_raw_def read_to_string_def)

end
