(* ===== verification/Script_Loader.thy ===== *)
theory Script_Loader
  imports Config State_Store Sieve_Engine
begin

text \<open>
  \<open>script_loader.rs\<close>: loading a script, reloading it, and the watcher's loop. The
  \<open>Arc<ArcSwap<CompiledScript>>\<close> that the loader shares with the \<open>ScriptHandle\<close> is one cell, the
  field \<open>sl_handle\<close>: \<open>current\<close> reads it, \<open>reload\<close> stores to it. Canonicalising a path and
  reading a file are parameters; since the file changes while the watcher runs, each watcher
  message comes with the file reader of the moment at which it is handled.
\<close>

datatype LoaderError = LoaderIo io_error | LoaderCompile SieveError

record 's ScriptLoader =
  sl_engine :: "'s SieveEngine"
  sl_path :: string
  sl_handle :: 's

definition current :: "'s ScriptLoader \<Rightarrow> 's" where
  "current l = sl_handle l"

definition load_script ::
    "(string \<Rightarrow> string option) \<Rightarrow> reader \<Rightarrow> 's SieveEngine \<Rightarrow> string \<Rightarrow> LoaderError + 's ScriptLoader"
where
  "load_script canonicalize read engine path =
     (let path = (case canonicalize path of None \<Rightarrow> path | Some p \<Rightarrow> p) in
      case read_to_string read path of
        Inl e \<Rightarrow> Inl (LoaderIo e)
      | Inr text \<Rightarrow>
     case compile engine text of
        Inl e \<Rightarrow> Inl (LoaderCompile e)
      | Inr compiled \<Rightarrow> Inr \<lparr>sl_engine = engine, sl_path = path, sl_handle = compiled\<rparr>)"

definition reload :: "reader \<Rightarrow> ('s ScriptLoader, LoaderError, unit) io" where
  "reload read self =
     (case read_to_string read (sl_path self) of
        Inl e \<Rightarrow> (Inl (LoaderIo e), self)
      | Inr text \<Rightarrow>
     case compile (sl_engine self) text of
        Inl e \<Rightarrow> (Inl (LoaderCompile e), self)
      | Inr compiled \<Rightarrow> (Inr (), self\<lparr>sl_handle := compiled\<rparr>))"

section \<open>The watcher\<close>

datatype EventKind = Modify | Create | RemoveFile | OtherKind

record notify_event =
  ev_paths :: "string list"
  ev_kind :: EventKind

definition relevant :: "string \<Rightarrow> notify_event \<Rightarrow> bool" where
  "relevant script_path event \<longleftrightarrow>
     script_path \<in> set (ev_paths event) \<and> ev_kind event \<in> {Modify, Create, RemoveFile}"

text \<open>One message of the channel: an error of the watcher, or an event.\<close>

definition watch_step :: "'s ScriptLoader \<Rightarrow> (string + notify_event) \<times> reader \<Rightarrow> 's ScriptLoader" where
  "watch_step loader msg =
     (case fst msg of
        Inl e \<Rightarrow> loader
      | Inr event \<Rightarrow>
          if sl_path loader \<notin> set (ev_paths event) then loader
          else if ev_kind event \<in> {Modify, Create, RemoveFile} then snd (reload (snd msg) loader)
          else loader)"

definition watch_loop ::
    "'s ScriptLoader \<Rightarrow> ((string + notify_event) \<times> reader) list \<Rightarrow> 's ScriptLoader" where
  "watch_loop loader msgs = foldl watch_step loader msgs"

text \<open>
  \<open>spawn_watcher\<close>: create a watcher, watch the directory the script is in, start the thread. The
  three calls are parameters; the result is the directory that is watched and the loop to run.
\<close>

definition spawn_watcher ::
    "string + unit \<Rightarrow> (string \<Rightarrow> string + unit) \<Rightarrow> string + unit \<Rightarrow> 's ScriptLoader
       \<Rightarrow> LoaderError + string \<times> (((string + notify_event) \<times> reader) list \<Rightarrow> 's ScriptLoader)"
where
  "spawn_watcher recommended watch spawn self =
     (case recommended of
        Inl e \<Rightarrow> Inl (LoaderIo (OtherIo e))
      | Inr _ \<Rightarrow>
          let parent = (case path_parent (sl_path self) of None \<Rightarrow> ''.'' | Some p \<Rightarrow> p) in
          case watch parent of
            Inl e \<Rightarrow> Inl (LoaderIo (OtherIo e))
          | Inr _ \<Rightarrow>
              (case spawn of
                 Inl e \<Rightarrow> Inl (LoaderIo (OtherIo e))
               | Inr _ \<Rightarrow> Inr (parent, watch_loop self)))"

text \<open>
  The guard. Its worker thread runs the loop above over the messages of the channel: those already
  sent are handled even after the sender is gone, and the loop ends when the channel is empty and
  the sender, which the watcher owns, has been dropped. \<open>join\<close> waits for that end; while the
  sender lives it never comes, and the result is \<open>None\<close>.
\<close>

record 's WatcherGuard =
  wg_watcher :: bool
  wg_thread :: "('s ScriptLoader \<times> ((string + notify_event) \<times> reader) list) option"

fun join_thread :: "bool \<Rightarrow> 's ScriptLoader \<times> ((string + notify_event) \<times> reader) list \<Rightarrow> 's ScriptLoader option" where
  "join_thread sender (loader, sent) = (if sender then None else Some (watch_loop loader sent))"

definition drop_guard :: "'s WatcherGuard \<Rightarrow> 's ScriptLoader option option" where
  "drop_guard self =
     (let self = self\<lparr>wg_watcher := False\<rparr> in
      case wg_thread self of
        None \<Rightarrow> Some None
      | Some handle \<Rightarrow> map_option Some (join_thread (wg_watcher self) handle))"

section \<open>Lemmas\<close>

lemma load_script_Inr:
  "load_script canonicalize read engine path = Inr l \<Longrightarrow>
     sl_engine l = engine \<and>
     (\<exists>src. read_to_string read (sl_path l) = Inr src \<and> compile engine src = Inr (current l))"
  by (auto simp: load_script_def Let_def current_def split: sum.splits)

text \<open>The compiled script of the file that a reader shows, if it can be read and compiled.\<close>

definition script_at :: "'s SieveEngine \<Rightarrow> string \<Rightarrow> reader \<Rightarrow> 's option" where
  "script_at engine path read =
     (case read_to_string read path of
        Inl _ \<Rightarrow> None
      | Inr text \<Rightarrow> (case compile engine text of Inl _ \<Rightarrow> None | Inr c \<Rightarrow> Some c))"

lemma reload_script_at:
  "reload read self =
     (case script_at (sl_engine self) (sl_path self) read of
        Some c \<Rightarrow> (Inr (), self\<lparr>sl_handle := c\<rparr>)
      | None \<Rightarrow> (Inl (case read_to_string read (sl_path self) of
                        Inl e \<Rightarrow> LoaderIo e
                      | Inr t \<Rightarrow> LoaderCompile (projl (compile (sl_engine self) t))), self))"
  by (auto simp: reload_def script_at_def split: sum.split)

lemma watch_step_frame [simp, frame_simps]:
  "sl_path (watch_step l m) = sl_path l" "sl_engine (watch_step l m) = sl_engine l"
  by (auto simp: watch_step_def reload_def split: sum.split)

lemma watch_step_script:
  "sl_handle (watch_step l (m, read)) =
     (case m of
        Inr event \<Rightarrow>
          if relevant (sl_path l) event
          then (case script_at (sl_engine l) (sl_path l) read of Some c \<Rightarrow> c | None \<Rightarrow> sl_handle l)
          else sl_handle l
      | Inl _ \<Rightarrow> sl_handle l)"
  by (auto simp: watch_step_def relevant_def reload_script_at split: sum.split option.split)

lemma watch_loop_frame [simp, frame_simps]:
  "sl_path (watch_loop l ms) = sl_path l" "sl_engine (watch_loop l ms) = sl_engine l"
  unfolding watch_loop_def by (induction ms arbitrary: l) simp_all

text \<open>The scripts the watcher could have installed, in order, after the initial one.\<close>

definition installs :: "'s ScriptLoader \<Rightarrow> (string + notify_event) \<times> reader \<Rightarrow> 's option" where
  "installs l m =
     (case fst m of
        Inl _ \<Rightarrow> None
      | Inr event \<Rightarrow> if relevant (sl_path l) event then script_at (sl_engine l) (sl_path l) (snd m) else None)"

lemma watch_step_installs:
  "sl_handle (watch_step l m) = (case installs l m of Some c \<Rightarrow> c | None \<Rightarrow> sl_handle l)"
  by (cases m) (auto simp: watch_step_script installs_def split: sum.split)

lemma installs_cong: "sl_path l = sl_path l' \<Longrightarrow> sl_engine l = sl_engine l' \<Longrightarrow> installs l m = installs l' m"
  by (simp add: installs_def split: sum.split)

lemma watch_loop_last:
  "sl_handle (watch_loop l ms) = last (sl_handle l # List.map_filter (installs l) ms)"
proof (induction ms arbitrary: l)
  case Nil
  then show ?case by (simp add: watch_loop_def List.map_filter_def)
next
  case (Cons m ms)
  have inst: "installs (watch_step l m) = installs l"
    by (intro ext installs_cong) simp_all
  have "watch_loop l (m # ms) = watch_loop (watch_step l m) ms"
    by (simp add: watch_loop_def)
  then show ?case
    using Cons.IH [of "watch_step l m"]
    by (auto simp: inst watch_step_installs List.map_filter_def split: option.split)
qed

text \<open>
  What the processor relies on: the script it reads is one that compiled, and a reload that fails
  leaves it as it was.
\<close>

locale script_source =
  fixes cell :: "'l \<Rightarrow> 's" and refresh :: "reader \<Rightarrow> ('l, LoaderError, unit) io"
    and good :: "'l \<Rightarrow> 's \<Rightarrow> bool"
  assumes refresh_Err: "refresh read l = (Inl e, l') \<Longrightarrow> l' = l"
    and refresh_Ok: "refresh read l = (Inr (), l') \<Longrightarrow> good l' (cell l')"
begin

lemma refresh_good: "good l (cell l) \<Longrightarrow> good (snd (refresh read l)) (cell (snd (refresh read l)))"
proof (cases "refresh read l")
  case (Pair r l')
  then show "good l (cell l) \<Longrightarrow> good (snd (refresh read l)) (cell (snd (refresh read l)))"
    using refresh_Err [of read l] refresh_Ok [of read l l'] by (cases r) auto
qed

lemma keeps_good: "keeps (\<lambda>l. good l (cell l)) (refresh read)"
  by (rule keepsI) (rule refresh_good)

end

interpretation script: script_source current reload
  "\<lambda>l c. \<exists>text. compile (sl_engine l) text = Inr c"
  by unfold_locales (auto simp: current_def reload_def split: sum.splits)

section \<open>Properties\<close>

text \<open>
  C35. After any run of the watcher, the script in use is the last one that was there to install:
  the initial script, or the script read at the latest event about the script's path at which the
  file could be read and compiled. Errors of the watcher, events about other paths, and reloads
  that fail change nothing.
\<close>

theorem watcher_installs_last_good:
  "current (watch_loop l msgs) = last (current l # List.map_filter (installs l) msgs)"
  by (simp add: current_def watch_loop_last)

text \<open>
  Whatever the watcher sees, the script in use is one that the loader's engine compiled from
  some text, if the initial one was.
\<close>

theorem watched_script_compiled:
  assumes "load_script canonicalize read engine path = Inr l"
  shows "\<exists>text. compile engine text = Inr (current (watch_loop l msgs))"
proof -
  from assms have eng: "sl_engine l = engine" and init: "\<exists>text. compile (sl_engine l) text = Inr (current l)"
    using load_script_Inr [OF assms] by auto
  have "\<exists>text. compile (sl_engine (watch_loop l' ms)) text = Inr (current (watch_loop l' ms))"
    if "\<exists>text. compile (sl_engine l') text = Inr (current l')" for l' ms
    using that
  proof (induction ms arbitrary: l')
    case (Cons m ms)
    have "\<exists>text. compile (sl_engine (watch_step l' m)) text = Inr (current (watch_step l' m))"
      using Cons.prems script.refresh_good [of l' "snd m"]
      by (auto simp: watch_step_def split: sum.split)
    from Cons.IH [OF this] show ?case by (simp add: watch_loop_def)
  qed (simp add: watch_loop_def)
  from this [OF init, of msgs] eng show ?thesis by simp
qed

theorem watched_script_compiled_witness:
  "\<exists>text. compile \<lparr>compile = Inr, evaluate = (\<lambda>_ _. Inr [Keep])\<rparr> text =
     Inr (current (watch_loop \<lparr>sl_engine = \<lparr>compile = Inr, evaluate = (\<lambda>_ _. Inr [Keep])\<rparr>,
        sl_path = ''/s'', sl_handle = ''keep;''\<rparr> [(Inl ''overflow'', \<lambda>_. Inr [])]))"
  by (rule watched_script_compiled [of "\<lambda>_. None" "\<lambda>_. Inr ''keep;''" _ "''/s''"])
     (simp add: load_script_def read_to_string_def byte_def)

text \<open>
  Dropping the guard of the watcher never hangs: the watcher, and with it the sending end of the
  channel, goes first, so the worker's loop runs out of messages and can be joined. What was sent
  before is still handled.
\<close>

theorem drop_guard_returns:
  "drop_guard self = Some (map_option (\<lambda>(loader, sent). watch_loop loader sent) (wg_thread self))"
  by (auto simp: drop_guard_def Let_def split: option.split)

end
