(* ===== verification/Async_Imap.thy ===== *)
theory Async_Imap
  imports Imap_Client Config
begin

text \<open>
  \<open>imap_client.rs\<close>, the production client: connecting, and the \<open>ImapClient\<close> trait over an
  \<open>async-imap\<close> session. The crates are parameters: \<open>Net\<close> holds the connection operations over
  the outside world \<open>'w\<close>; \<open>Crate\<close> holds the commands of a session of type \<open>'s\<close>, each of which may
  change the session and the world. \<open>IDLE\<close> takes the session out of the client, and only a
  successful DONE puts it back.
\<close>

section \<open>Connecting\<close>

datatype ('t, 'u) ImapStream = TlsStream 'u | PlainStream 't

record ('w, 't, 'u, 's) Net =
  tcp_connect :: "string \<Rightarrow> u16 \<Rightarrow> ('w, string, 't) io"
  server_name :: "string \<Rightarrow> string + string"
  tls_handshake :: "string \<Rightarrow> 't \<Rightarrow> ('w, string, 'u) io"
  run_starttls :: "('t, 'u) ImapStream \<Rightarrow> ('w, string, ('t, 'u) ImapStream) io"
  login :: "('t, 'u) ImapStream \<Rightarrow> string \<Rightarrow> string \<Rightarrow> ('w, string, 's) io"

text \<open>
  The stream as an \<open>AsyncRead\<close> and \<open>AsyncWrite\<close>: each poll goes to the stream inside. \<open>AsyncIo\<close> holds
  the polls of an inner stream of type \<open>'x\<close>; a read is given the room left in its buffer.
\<close>

datatype 'a poll = Ready 'a | Pending

record ('w, 'x) AsyncIo =
  io_read :: "nat \<Rightarrow> 'x \<times> 'w \<Rightarrow> (io_error + bytes) poll \<times> 'x \<times> 'w"
  io_write :: "bytes \<Rightarrow> 'x \<times> 'w \<Rightarrow> (io_error + nat) poll \<times> 'x \<times> 'w"
  io_flush :: "'x \<times> 'w \<Rightarrow> (io_error + unit) poll \<times> 'x \<times> 'w"
  io_shutdown :: "'x \<times> 'w \<Rightarrow> (io_error + unit) poll \<times> 'x \<times> 'w"

definition poll_inner ::
    "('u \<times> 'w \<Rightarrow> 'r \<times> 'u \<times> 'w) \<Rightarrow> ('t \<times> 'w \<Rightarrow> 'r \<times> 't \<times> 'w) \<Rightarrow>
       ('t, 'u) ImapStream \<times> 'w \<Rightarrow> 'r \<times> ('t, 'u) ImapStream \<times> 'w" where
  "poll_inner tls tcp self =
     (case fst self of
        TlsStream s \<Rightarrow> (case tls (s, snd self) of (r, s', w') \<Rightarrow> (r, TlsStream s', w'))
      | PlainStream s \<Rightarrow> (case tcp (s, snd self) of (r, s', w') \<Rightarrow> (r, PlainStream s', w')))"

definition poll_read ::
    "('w, 'u) AsyncIo \<Rightarrow> ('w, 't) AsyncIo \<Rightarrow> nat \<Rightarrow> ('t, 'u) ImapStream \<times> 'w \<Rightarrow>
       (io_error + bytes) poll \<times> ('t, 'u) ImapStream \<times> 'w" where
  "poll_read T P room = poll_inner (io_read T room) (io_read P room)"

definition poll_write ::
    "('w, 'u) AsyncIo \<Rightarrow> ('w, 't) AsyncIo \<Rightarrow> bytes \<Rightarrow> ('t, 'u) ImapStream \<times> 'w \<Rightarrow>
       (io_error + nat) poll \<times> ('t, 'u) ImapStream \<times> 'w" where
  "poll_write T P buf = poll_inner (io_write T buf) (io_write P buf)"

definition poll_flush ::
    "('w, 'u) AsyncIo \<Rightarrow> ('w, 't) AsyncIo \<Rightarrow> ('t, 'u) ImapStream \<times> 'w \<Rightarrow>
       (io_error + unit) poll \<times> ('t, 'u) ImapStream \<times> 'w" where
  "poll_flush T P = poll_inner (io_flush T) (io_flush P)"

definition poll_shutdown ::
    "('w, 'u) AsyncIo \<Rightarrow> ('w, 't) AsyncIo \<Rightarrow> ('t, 'u) ImapStream \<times> 'w \<Rightarrow>
       (io_error + unit) poll \<times> ('t, 'u) ImapStream \<times> 'w" where
  "poll_shutdown T P = poll_inner (io_shutdown T) (io_shutdown P)"

fun debug_stream :: "('t, 'u) ImapStream \<Rightarrow> string" where
  "debug_stream (TlsStream _) = ''TlsStream''"
| "debug_stream (PlainStream _) = ''TcpStream''"

definition err_io :: "('e \<Rightarrow> 'f) \<Rightarrow> ('w, 'e, 'a) io \<Rightarrow> ('w, 'f, 'a) io" where
  "err_io f m w = (case m w of (r, w') \<Rightarrow> (map_err f r, w'))"

definition tls_connect :: "('w, 't, 'u, 's) Net \<Rightarrow> 't \<Rightarrow> string \<Rightarrow> ('w, CoreError, ('t, 'u) ImapStream) io" where
  "tls_connect N tcp host =
     (case server_name N host of
        Inl e \<Rightarrow> throw_io (Imap (''invalid server name: '' @ e))
      | Inr name \<Rightarrow>
          bind_io (err_io (\<lambda>e. Imap (''TLS handshake: '' @ e)) (tls_handshake N name tcp)) (\<lambda>tls.
          ret_io (TlsStream tls)))"

definition do_login ::
    "('w, 't, 'u, 's) Net \<Rightarrow> ('t, 'u) ImapStream \<Rightarrow> string \<Rightarrow> string \<Rightarrow> ('w, CoreError, 's option) io" where
  "do_login N stream username password =
     bind_io (err_io (\<lambda>e. Imap (''login failed: '' @ e)) (login N stream username password)) (\<lambda>session.
     ret_io (Some session))"

definition connect ::
    "('w, 't, 'u, 's) Net \<Rightarrow> string \<Rightarrow> u16 \<Rightarrow> string \<Rightarrow> string \<Rightarrow> ImapTlsMode \<Rightarrow> ('w, CoreError, 's option) io"
where
  "connect N host port username password tls_mode =
     bind_io (err_io (\<lambda>e. Imap (''tcp connect to '' @ host @ '':'' @ show_word port @ '': '' @ e))
                (tcp_connect N host port)) (\<lambda>tcp.
     case tls_mode of
       Implicit \<Rightarrow>
         bind_io (tls_connect N tcp host) (\<lambda>stream.
         do_login N stream username password)
     | Starttls \<Rightarrow>
         bind_io (err_io (\<lambda>e. Imap (''STARTTLS command: '' @ e)) (run_starttls N (PlainStream tcp))) (\<lambda>raw_tcp.
         case raw_tcp of
           PlainStream tcp_stream \<Rightarrow>
             bind_io (tls_connect N tcp_stream host) (\<lambda>tls_stream.
             do_login N tls_stream username password)
         | TlsStream _ \<Rightarrow> throw_io (Imap ''STARTTLS on already-TLS connection''))
     | PlainTcp \<Rightarrow> do_login N (PlainStream tcp) username password)"

section \<open>The crate's data\<close>

datatype Flag =
    Seen | Answered | Flagged | DeletedFlag | Draft | Recent | MayCreate | Custom string

record Address =
  ad_mailbox :: "bytes option"
  ad_host :: "bytes option"

record ImapEnvelope =
  en_from :: "Address list option"
  en_to :: "Address list option"

record Fetch =
  fe_uid :: "u32 option"
  fe_body :: "bytes option"
  fe_size :: "u32 option"
  fe_flags :: "Flag list"
  fe_envelope :: "ImapEnvelope option"

record Mailbox =
  mx_uid_validity :: "u32 option"
  mx_uid_next :: "u32 option"
  mx_exists :: u32
  mx_highest_modseq :: "u64 option"

datatype IdleResponse = NewData | ManualInterrupt | Timeout

record ('w, 's) Crate =
  cr_capabilities :: "('s \<times> 'w, string, string \<Rightarrow> bool) io"
  cr_select :: "string \<Rightarrow> ('s \<times> 'w, string, Mailbox) io"
  cr_uid_fetch :: "string \<Rightarrow> string \<Rightarrow> ('s \<times> 'w, string, (string + Fetch) list) io"
  cr_uid_mv :: "string \<Rightarrow> string \<Rightarrow> ('s \<times> 'w, string, unit) io"
  cr_uid_copy :: "string \<Rightarrow> string \<Rightarrow> ('s \<times> 'w, string, unit) io"
  cr_uid_store :: "string \<Rightarrow> string \<Rightarrow> ('s \<times> 'w, string, (string + unit) list) io"
  cr_uid_expunge :: "string \<Rightarrow> ('s \<times> 'w, string, (string + unit) list) io"
  cr_create :: "string \<Rightarrow> ('s \<times> 'w, string, unit) io"
  cr_append :: "string \<Rightarrow> bytes \<Rightarrow> ('s \<times> 'w, string, unit) io"
  cr_idle_init :: "('s \<times> 'w, string, unit) io"
  cr_idle_wait :: "nat \<Rightarrow> ('s \<times> 'w, string, IdleResponse) io"
  cr_idle_done :: "('s \<times> 'w, string, unit) io"

fun flag_to_string :: "Flag \<Rightarrow> string" where
  "flag_to_string Seen = CHR 0x5C # ''Seen''"
| "flag_to_string Answered = CHR 0x5C # ''Answered''"
| "flag_to_string Flagged = CHR 0x5C # ''Flagged''"
| "flag_to_string DeletedFlag = CHR 0x5C # ''Deleted''"
| "flag_to_string Draft = CHR 0x5C # ''Draft''"
| "flag_to_string Recent = CHR 0x5C # ''Recent''"
| "flag_to_string MayCreate = CHR 0x5C # ''*''"
| "flag_to_string (Custom s) = s"

definition addr_to_string :: "Address \<Rightarrow> string" where
  "addr_to_string addr =
     (let mailbox = (case ad_mailbox addr of None \<Rightarrow> [] | Some m \<Rightarrow> from_utf8_lossy m);
          host = (case ad_host addr of None \<Rightarrow> [] | Some h \<Rightarrow> from_utf8_lossy h)
      in if host = [] then mailbox else mailbox @ ''@'' @ host)"

section \<open>The client\<close>

type_synonym ('w, 's) client = "'s option \<times> 'w"

text \<open>\<open>self.session()?\<close> followed by a command of the session.\<close>

definition with_session :: "('s \<times> 'w, string, 'a) io \<Rightarrow> (('w, 's) client, CoreError, 'a) io" where
  "with_session f c =
     (case fst c of
        None \<Rightarrow> (Inl (Imap ''session not available''), c)
      | Some s \<Rightarrow> (case f (s, snd c) of (r, s', w') \<Rightarrow> (map_err Imap r, (Some s', w'))))"

definition capabilities_impl :: "('w, 's) Crate \<Rightarrow> (('w, 's) client, CoreError, Capabilities) io" where
  "capabilities_impl K =
     bind_io (with_session (cr_capabilities K)) (\<lambda>has_str.
     ret_io \<lparr>cap_idle = has_str ''IDLE'', cap_uidplus = has_str ''UIDPLUS'',
             cap_supports_move = has_str ''MOVE'', cap_condstore = has_str ''CONDSTORE'',
             cap_qresync = has_str ''QRESYNC''\<rparr>)"

definition select_impl :: "('w, 's) Crate \<Rightarrow> string \<Rightarrow> (('w, 's) client, CoreError, MailboxStatus) io" where
  "select_impl K mailbox =
     bind_io (with_session (cr_select K mailbox)) (\<lambda>m.
     ret_io \<lparr>mb_uidvalidity = (case mx_uid_validity m of None \<Rightarrow> 0 | Some v \<Rightarrow> v),
             mb_uidnext = (case mx_uid_next m of None \<Rightarrow> 0 | Some n \<Rightarrow> n),
             mb_exists = mx_exists m, mb_highestmodseq = mx_highest_modseq m\<rparr>)"

text \<open>The reverse-path: the Return-Path header without its brackets, or the first From address.\<close>

definition bare_path :: "string \<Rightarrow> string" where
  "bare_path s =
     (let s = trim s in
      case strip_prefix CHR ''<'' s of
        None \<Rightarrow> s
      | Some t \<Rightarrow> (case strip_suffix CHR ''>'' t of None \<Rightarrow> s | Some u \<Rightarrow> u))"

definition envelope_first_from :: "Fetch \<Rightarrow> string option" where
  "envelope_first_from m =
     (case fe_envelope m of
        None \<Rightarrow> None
      | Some env \<Rightarrow>
          (case en_from env of
             None \<Rightarrow> None
           | Some [] \<Rightarrow> None
           | Some (a # _) \<Rightarrow> Some (addr_to_string a)))"

definition envelope_from_of :: "(string \<rightharpoonup> string) \<Rightarrow> Fetch \<Rightarrow> string option" where
  "envelope_from_of headers m =
     (case headers ''return-path'' of
        None \<Rightarrow> envelope_first_from m
      | Some v \<Rightarrow> if bare_path v \<noteq> [] then Some (bare_path v) else envelope_first_from m)"

definition envelope_to_of :: "Fetch \<Rightarrow> string list" where
  "envelope_to_of m =
     (case fe_envelope m of
        None \<Rightarrow> []
      | Some env \<Rightarrow> (case en_to env of None \<Rightarrow> [] | Some addrs \<Rightarrow> map addr_to_string addrs))"

definition context_of :: "Fetch \<Rightarrow> MessageContext" where
  "context_of m =
     (let headers = parse_headers (case fe_body m of None \<Rightarrow> [] | Some b \<Rightarrow> b) in
      \<lparr>msg_uid = (case fe_uid m of None \<Rightarrow> 0 | Some u \<Rightarrow> u), msg_mailbox = [], msg_headers = headers,
       msg_envelope_from = envelope_from_of headers m, msg_envelope_to = envelope_to_of m,
       msg_raw = fe_body m, msg_flags = map flag_to_string (fe_flags m),
       msg_size = (case fe_size m of None \<Rightarrow> 0 | Some n \<Rightarrow> n)\<rparr>)"

definition fetch_query :: "u32 \<Rightarrow> string" where
  "fetch_query start_uid = show_word start_uid @ '':*''"

definition fetch_spec :: "u64 option \<Rightarrow> string" where
  "fetch_spec changed_since =
     (case changed_since of
        Some modseq \<Rightarrow>
          ''(UID FLAGS RFC822.SIZE ENVELOPE BODY.PEEK[]) (CHANGEDSINCE '' @ show_word modseq @ '')''
      | None \<Rightarrow> ''(UID FLAGS RFC822.SIZE ENVELOPE BODY.PEEK[])'')"

text \<open>The loop over the response stream: the first broken item ends it with its error.\<close>

fun read_items :: "(string + Fetch) list \<Rightarrow> MessageContext list \<Rightarrow> CoreError + MessageContext list" where
  "read_items [] out = Inr out"
| "read_items (Inl e # items) out = Inl (Imap e)"
| "read_items (Inr m # items) out = read_items items (out @ [context_of m])"

definition lift_result :: "'e + 'a \<Rightarrow> ('w, 'e, 'a) io" where
  "lift_result r w = (r, w)"

definition fetch_uid_range_impl ::
    "('w, 's) Crate \<Rightarrow> string \<Rightarrow> u32 \<Rightarrow> u64 option \<Rightarrow> (('w, 's) client, CoreError, MessageContext list) io" where
  "fetch_uid_range_impl K mailbox start_uid changed_since =
     bind_io (with_session (cr_uid_fetch K (fetch_query start_uid) (fetch_spec changed_since))) (\<lambda>items.
     lift_result (read_items items []))"

fun first_error :: "(string + unit) list \<Rightarrow> CoreError + unit" where
  "first_error [] = Inr ()"
| "first_error (Inl e # rs) = Inl (Imap e)"
| "first_error (Inr _ # rs) = first_error rs"

fun flag_prefix :: "FlagOp \<Rightarrow> string" where
  "flag_prefix Add = ''+FLAGS''"
| "flag_prefix Remove = ''-FLAGS''"
| "flag_prefix Set = ''FLAGS''"

definition store_command :: "FlagOp \<Rightarrow> string list \<Rightarrow> string" where
  "store_command op flags = flag_prefix op @ '' ('' @ join '' '' flags @ '')''"

definition uid_set :: "u32 list \<Rightarrow> string" where
  "uid_set uids = join '','' (map show_word uids)"

definition uid_store_flags_impl ::
    "('w, 's) Crate \<Rightarrow> u32 \<Rightarrow> FlagOp \<Rightarrow> string list \<Rightarrow> (('w, 's) client, CoreError, unit) io" where
  "uid_store_flags_impl K uid op flags =
     bind_io (with_session (cr_uid_store K (show_word uid) (store_command op flags))) (\<lambda>results.
     lift_result (first_error results))"

definition uid_expunge_impl :: "('w, 's) Crate \<Rightarrow> u32 list \<Rightarrow> (('w, 's) client, CoreError, unit) io" where
  "uid_expunge_impl K uids =
     bind_io (with_session (cr_uid_expunge K (uid_set uids))) (\<lambda>results.
     lift_result (first_error results))"

definition idle_impl :: "('w, 's) Crate \<Rightarrow> nat \<Rightarrow> (('w, 's) client, CoreError, IdleEvent) io" where
  "idle_impl K timeout c =
     (case fst c of
        None \<Rightarrow> (Inl (Imap ''session not available''), c)
      | Some s \<Rightarrow>
     case cr_idle_init K (s, snd c) of
        (Inl e, _, w1) \<Rightarrow> (Inl (Imap (''idle init: '' @ e)), (None, w1))
      | (Inr _, h1) \<Rightarrow>
     case cr_idle_wait K timeout h1 of
        (result, h2) \<Rightarrow>
     case cr_idle_done K h2 of
        (r, s3, w3) \<Rightarrow>
          ((case result of
              Inr NewData \<Rightarrow> Inr (Exists 0)
            | Inr ManualInterrupt \<Rightarrow> Inr Interrupted
            | Inr Timeout \<Rightarrow> Inr Interrupted
            | Inl e \<Rightarrow> Inl (Imap (''idle wait: '' @ e))),
           (case r of Inr _ \<Rightarrow> Some s3 | Inl _ \<Rightarrow> None, w3)))"

definition uid_move_impl :: "('w, 's) Crate \<Rightarrow> u32 \<Rightarrow> string \<Rightarrow> (('w, 's) client, CoreError, unit) io" where
  "uid_move_impl K uid target = with_session (cr_uid_mv K (show_word uid) target)"

definition uid_copy_impl :: "('w, 's) Crate \<Rightarrow> u32 \<Rightarrow> string \<Rightarrow> (('w, 's) client, CoreError, unit) io" where
  "uid_copy_impl K uid target = with_session (cr_uid_copy K (show_word uid) target)"

definition uid_create_mailbox_impl :: "('w, 's) Crate \<Rightarrow> string \<Rightarrow> (('w, 's) client, CoreError, unit) io" where
  "uid_create_mailbox_impl K mailbox = with_session (cr_create K mailbox)"

text \<open>Two helpers of the integration tests.\<close>

definition session_create_mailbox :: "('w, 's) Crate \<Rightarrow> string \<Rightarrow> (('w, 's) client, CoreError, unit) io" where
  "session_create_mailbox K name = with_session (cr_create K name)"

definition session_append :: "('w, 's) Crate \<Rightarrow> string \<Rightarrow> bytes \<Rightarrow> (('w, 's) client, CoreError, unit) io" where
  "session_append K mailbox raw = with_session (cr_append K mailbox raw)"

definition async_imap :: "('w, 's) Crate \<Rightarrow> ('w, 's) client ImapClient" where
  "async_imap K =
     \<lparr>capabilities = capabilities_impl K,
      select = select_impl K,
      fetch_uid_range = fetch_uid_range_impl K,
      uid_move = uid_move_impl K,
      uid_copy = uid_copy_impl K,
      uid_store_flags = uid_store_flags_impl K,
      uid_expunge = uid_expunge_impl K,
      uid_create_mailbox = uid_create_mailbox_impl K,
      idle = idle_impl K\<rparr>"

section \<open>Lemmas\<close>

lemma read_items_Inr:
  "read_items items out = Inr out' \<longleftrightarrow> (\<exists>ms. items = map Inr ms \<and> out' = out @ map context_of ms)"
proof (induction items out arbitrary: out' rule: read_items.induct)
  case (3 m items out)
  then show ?case by (auto simp: Cons_eq_map_conv)
qed auto

lemma show_word_digits: "c \<in> set (show_word w) \<Longrightarrow> is_digit c"
  by (simp add: show_word_def show_nat_digits)

lemma no_comma_show_word: "CHR '','' \<notin> set (show_word w)"
  using show_word_digits [of "CHR '',''" w] by (auto simp: is_digit_def byte_def)

lemma inj_show_word: "show_word v = show_word w \<longleftrightarrow> v = w"
  by (auto simp: show_word_def unsigned_word_eqI dest!: inj_show_nat)

lemma show_word_not_Nil [simp]: "show_word w \<noteq> []"
  by (simp add: show_word_def)

lemma uid_set_Cons:
  "uid_set (u # us) = (if us = [] then show_word u else show_word u @ CHR '','' # uid_set us)"
  by (cases us) (simp_all add: uid_set_def)

lemma uid_set_Nil [simp]: "uid_set [] = []"
  by (simp add: uid_set_def)

lemma uid_set_eq_Nil [simp]: "uid_set us = [] \<longleftrightarrow> us = []"
proof (cases us)
  case (Cons a list)
  then show ?thesis by (simp add: uid_set_Cons)
qed simp

lemma Nil_eq_uid_set [simp]: "[] = uid_set us \<longleftrightarrow> us = []"
  using uid_set_eq_Nil [of us] by argo

lemma uid_set_head:
  "takeWhile (\<lambda>c. c \<noteq> CHR '','') (uid_set (u # us)) = show_word u"
  using no_comma_show_word [of u] by (simp add: uid_set_Cons)

lemma uid_set_inj: "uid_set us = uid_set vs \<Longrightarrow> us = vs"
proof (induction us arbitrary: vs)
  case Nil
  then show ?case by simp
next
  case (Cons u us)
  then obtain v vs' where vs: "vs = v # vs'"
    by (cases vs) simp_all
  with Cons.prems uid_set_head have uv: "u = v" by (metis inj_show_word)
  have "uid_set us = uid_set vs' \<and> (us = [] \<longleftrightarrow> vs' = [])"
    using Cons.prems unfolding vs uv uid_set_Cons by (auto split: if_splits)
  with Cons.IH uv vs show ?case by blast
qed

lemma with_session_lost [simp]:
  "with_session f (None, w) = (Inl (Imap ''session not available''), (None, w))"
  by (simp add: with_session_def)

section \<open>Properties\<close>

lemma tls_stream_never_plain:
  "poll_read T P room (TlsStream s, w) = poll_read T P' room (TlsStream s, w)"
  "poll_write T P buf (TlsStream s, w) = poll_write T P' buf (TlsStream s, w)"
  "poll_flush T P (TlsStream s, w) = poll_flush T P' (TlsStream s, w)"
  "poll_shutdown T P (TlsStream s, w) = poll_shutdown T P' (TlsStream s, w)"
  by (simp_all add: poll_read_def poll_write_def poll_flush_def poll_shutdown_def poll_inner_def)

lemma stream_kind_kept [simp]:
  "debug_stream (fst (snd (poll_read T P room sw))) = debug_stream (fst sw)"
  "debug_stream (fst (snd (poll_write T P buf sw))) = debug_stream (fst sw)"
  "debug_stream (fst (snd (poll_flush T P sw))) = debug_stream (fst sw)"
  "debug_stream (fst (snd (poll_shutdown T P sw))) = debug_stream (fst sw)"
  by (simp_all add: poll_read_def poll_write_def poll_flush_def poll_shutdown_def poll_inner_def
      split: ImapStream.split prod.split)

text \<open>
  C25. Except in the plain mode, the credentials are handed to the login only over TLS: whatever a
  login over a plain stream would do, connecting with implicit TLS or with STARTTLS behaves the
  same, so it is never called.
\<close>

theorem login_only_over_tls:
  assumes "tls_mode \<noteq> PlainTcp"
  shows "connect (N\<lparr>login := (\<lambda>stream u p. case stream of PlainStream t \<Rightarrow> other t u p
                                | TlsStream s \<Rightarrow> login N (TlsStream s) u p)\<rparr>)
           host port username password tls_mode
         = connect N host port username password tls_mode"
proof -
  have tls: "tls_connect (N\<lparr>login := l\<rparr>) tcp host = tls_connect N tcp host" for l tcp
    by (simp add: tls_connect_def split: sum.split)
  have "bind_io (tls_connect N tcp host) (\<lambda>stream. do_login
        (N\<lparr>login := (\<lambda>stream u p. case stream of PlainStream t \<Rightarrow> other t u p
                                | TlsStream s \<Rightarrow> login N (TlsStream s) u p)\<rparr>) stream username password) =
      bind_io (tls_connect N tcp host) (\<lambda>stream. do_login N stream username password)" for tcp
    by (simp add: tls_connect_def bind_io_assoc do_login_def split: sum.split)
  with assms tls show ?thesis
    by (cases tls_mode) (simp_all add: connect_def)
qed

definition sample_net :: "('w, unit, unit, unit) Net" where
  "sample_net =
     \<lparr>tcp_connect = (\<lambda>_ _. ret_io ()), server_name = Inr, tls_handshake = (\<lambda>_ _. ret_io ()),
      run_starttls = ret_io, login = (\<lambda>_ _ _. ret_io ())\<rparr>"

theorem login_only_over_tls_witness:
  "connect (sample_net\<lparr>login := (\<lambda>stream u p. case stream of PlainStream t \<Rightarrow> throw_io ''leaked''
                                | TlsStream s \<Rightarrow> login sample_net (TlsStream s) u p)\<rparr>)
     ''h'' 143 ''u'' ''pw'' Starttls () = (Inr (Some ()), ())"
  by (subst login_only_over_tls)
     (simp_all add: sample_net_def connect_def tls_connect_def do_login_def err_io_def bind_io_def)

text \<open>
  A fetch returns messages only if every item of the response could be read, and then it is
  one message per item, in the order of the server; one broken item fails the whole fetch.
\<close>

theorem fetch_all_or_nothing:
  assumes "cr_uid_fetch K (fetch_query start) (fetch_spec since) (s, w) = (Inr items, (s', w'))"
  shows "(fetch_uid_range (async_imap K) mailbox start since (Some s, w) = (Inr msgs, (Some s', w'))) =
         (\<exists>ms. items = map Inr ms \<and> msgs = map context_of ms)"
  using assms read_items_Inr [of items "[]" msgs]
  by (simp add: async_imap_def fetch_uid_range_impl_def bind_io_def with_session_def lift_result_def)

definition sample_fetch :: Fetch where
  "sample_fetch =
     \<lparr>fe_uid = Some 5, fe_body = Some (''Return-Path: <>'' @ CRLF @ ''Subject: x'' @ CRLF), fe_size = Some 20,
      fe_flags = [Seen],
      fe_envelope = Some \<lparr>en_from = Some [\<lparr>ad_mailbox = Some ''a'', ad_host = Some ''b''\<rparr>], en_to = None\<rparr>\<rparr>"

definition sample_crate :: "(unit, unit) Crate" where
  "sample_crate =
     \<lparr>cr_capabilities = ret_io (\<lambda>_. True),
      cr_select = (\<lambda>_. ret_io \<lparr>mx_uid_validity = None, mx_uid_next = None, mx_exists = 0, mx_highest_modseq = None\<rparr>),
      cr_uid_fetch = (\<lambda>_ _. ret_io [Inr sample_fetch]),
      cr_uid_mv = (\<lambda>_ _. ret_io ()), cr_uid_copy = (\<lambda>_ _. ret_io ()), cr_uid_store = (\<lambda>_ _. ret_io []),
      cr_uid_expunge = (\<lambda>_. ret_io []), cr_create = (\<lambda>_. ret_io ()), cr_append = (\<lambda>_ _. ret_io ()), cr_idle_init = ret_io (),
      cr_idle_wait = (\<lambda>_. ret_io NewData), cr_idle_done = throw_io ''broken pipe''\<rparr>"

theorem fetch_all_or_nothing_witness:
  "fetch_uid_range (async_imap sample_crate) [] 5 None (Some (), ()) = (Inr [context_of sample_fetch], (Some (), ()))"
  by (subst fetch_all_or_nothing [where items = "[Inr sample_fetch]"])
     (auto simp: sample_crate_def intro: exI [of _ "[sample_fetch]"])

text \<open>
  C34. The sender of a fetched message is the bare address of its Return-Path header, if that holds
  one; a message without the header, or with the null path \<open><>\<close> of a bounce, gets the first From
  address of the ENVELOPE instead.
\<close>

theorem reverse_path:
  assumes "fe_body m = Some body" and "parse_headers body ''return-path'' = Some v"
    and "trim v = CHR ''<'' # a @ [CHR ''>'']"
  shows "msg_envelope_from (context_of m) = (if a \<noteq> [] then Some a else envelope_first_from m)"
proof -
  have "bare_path v = a"
    using assms(3) by (simp add: bare_path_def)
  with assms show ?thesis
    by (simp add: context_of_def Let_def envelope_from_of_def)
qed

theorem reverse_path_witness: "msg_envelope_from (context_of sample_fetch) = Some ''a@b''"
proof -
  let ?b = "''Return-Path: <>'' @ CRLF @ ''Subject: x'' @ CRLF"
  have "parse_headers ?b ''return-path'' = Some ''<>''" and "trim ''<>'' = ''<>''" by code_simp+
  with reverse_path [of sample_fetch ?b "''<>''" "[]"] show ?thesis
    by (simp add: sample_fetch_def envelope_first_from_def addr_to_string_def byte_def)
qed

text \<open>The UID set of an EXPUNGE names exactly the given UIDs: no two lists have the same text.\<close>

theorem uid_set_unambiguous: "(uid_set us = uid_set vs) = (us = vs)"
  using uid_set_inj by blast

text \<open>
  Once its session is lost the client does nothing any more: every method fails with the same
  error and leaves client and server as they are, until the supervisor connects again.
\<close>

theorem lost_session_is_inert:
  "run_op (async_imap K) op (None, w) = (Inl (Imap ''session not available''), (None, w)) \<and>
   capabilities (async_imap K) (None, w) = (Inl (Imap ''session not available''), (None, w)) \<and>
   select (async_imap K) mailbox (None, w) = (Inl (Imap ''session not available''), (None, w)) \<and>
   fetch_uid_range (async_imap K) mailbox start since (None, w) = (Inl (Imap ''session not available''), (None, w)) \<and>
   idle (async_imap K) timeout (None, w) = (Inl (Imap ''session not available''), (None, w))"
  by (cases op)
     (simp_all add: async_imap_def capabilities_impl_def select_impl_def fetch_uid_range_impl_def
        uid_store_flags_impl_def uid_expunge_impl_def uid_move_impl_def uid_copy_impl_def
        uid_create_mailbox_impl_def idle_impl_def bind_io_def)

text \<open>
  IDLE keeps the session exactly if both its start and its DONE succeed. The event is reported
  even if DONE fails, so a loss at that point shows up as an error of the next command.
\<close>

theorem idle_session:
  "(fst (snd (idle (async_imap K) timeout (Some s, w))) \<noteq> None) =
     (\<not> isl (fst (cr_idle_init K (s, w))) \<and>
      \<not> isl (fst (cr_idle_done K (snd (cr_idle_wait K timeout (snd (cr_idle_init K (s, w))))))))"
  by (auto simp: async_imap_def idle_impl_def split: prod.split sum.split)

end
