(* ===== verification/Daemon.thy ===== *)
theory Daemon
  imports Supervisor Script_Loader Async_Imap
begin

text \<open>
  \<open>daemon.rs\<close> and \<open>main.rs\<close>: the subcommands, and how the daemon is put together from a
  configuration. What the binary takes from its host is the record \<open>Host\<close>: reading files, the TOML
  reader, the environment's directories, running commands, and the third-party crates. The world
  of the supervisor is the client of \<open>Async_Imap\<close> over the outside world.

  Not modelled: the texts of log messages, and the join error of the blocking task that resolves
  the password. The shutdown notification that the signal handlers raise is the schedule of
  \<open>Session\<close> and \<open>Supervisor\<close>.
\<close>

section \<open>Errors as text\<close>

fun display_config_error :: "ConfigError \<Rightarrow> string" where
  "display_config_error (ConfigIo e) = ''io error reading config: '' @ display_io_error e"
| "display_config_error (Parse m) = ''toml parse error: '' @ m"
| "display_config_error (Invalid m) = ''invalid config: '' @ m"
| "display_config_error (PasswordCommand m) = ''password_command failed: '' @ m"

fun display_loader_error :: "LoaderError \<Rightarrow> string" where
  "display_loader_error (LoaderIo e) = ''io: '' @ display_io_error e"
| "display_loader_error (LoaderCompile e) = ''compile: '' @ display_sieve_error e"

text \<open>An \<open>anyhow\<close> error is the chain of its messages, the outermost context first.\<close>

type_synonym anyhow = "string list"

definition with_context :: "string \<Rightarrow> ('e \<Rightarrow> string) \<Rightarrow> 'e + 'a \<Rightarrow> anyhow + 'a" where
  "with_context c display r = map_err (\<lambda>e. [c, display e]) r"

definition bare :: "('e \<Rightarrow> string) \<Rightarrow> 'e + 'a \<Rightarrow> anyhow + 'a" where
  "bare display r = map_err (\<lambda>e. [display e]) r"

definition and_then :: "'e + 'a \<Rightarrow> ('a \<Rightarrow> 'e + 'b) \<Rightarrow> 'e + 'b" where
  "and_then r f = (case r of Inl e \<Rightarrow> Inl e | Inr a \<Rightarrow> f a)"

section \<open>The host\<close>

record ('w, 's, 'i, 't, 'u, 'e, 'tr, 'a, 'v) Host =
  ho_read :: reader
  ho_toml :: "string \<Rightarrow> string + raw_config"
  ho_canonicalize :: "string \<Rightarrow> string option"
  ho_sieve :: "('i, 's) SieveRs"
  ho_recommended :: "string + unit"
  ho_watch :: "string \<Rightarrow> string + unit"
  ho_spawn :: "string + unit"
  ho_handle :: "'s \<Rightarrow> ('w, 'e) client \<Rightarrow> 's"
  ho_xdg_state_home :: "string option"
  ho_state_dir :: "string option"
  ho_data_local_dir :: "string option"
  ho_serde :: Serde
  ho_windows :: bool
  ho_command :: runner
  ho_lettre :: "(('w, 'e) client, 'tr, 'a, 'v) Lettre"
  ho_net :: "('w, 't, 'u, 'e) Net"
  ho_crate :: "('w, 'e) Crate"
  ho_stamp :: "('w, 'e) client \<Rightarrow> (string \<times> string) \<times> ('w, 'e) client"

section \<open>Paths\<close>

definition or_else :: "'a option \<Rightarrow> 'a option \<Rightarrow> 'a option" where
  "or_else a b = (case a of None \<Rightarrow> b | Some x \<Rightarrow> Some x)"

definition state_path :: "('w, 's, 'i, 't, 'u, 'e, 'tr, 'a, 'v) Host \<Rightarrow> Config \<Rightarrow> anyhow + string" where
  "state_path H cfg =
     (case dc_state_dir (cfg_daemon cfg) of
        Some dir \<Rightarrow> Inr (path_join dir ''state.json'')
      | None \<Rightarrow>
          (case or_else (or_else (ho_xdg_state_home H) (ho_state_dir H)) (ho_data_local_dir H) of
             None \<Rightarrow> Inl [''cannot determine state directory; set daemon.state_dir in config'']
           | Some base \<Rightarrow> Inr (path_join (path_join base ''imap-sieve'') ''state.json'')))"

section \<open>Connections and mail\<close>

record AsyncImapFactory =
  af_cfg :: ImapConfig

definition new_AsyncImapFactory :: "ImapConfig \<Rightarrow> AsyncImapFactory" where
  "new_AsyncImapFactory cfg = \<lparr>af_cfg = cfg\<rparr>"

definition factory_connect ::
    "('w, 's, 'i, 't, 'u, 'e, 'tr, 'a, 'v) Host \<Rightarrow> AsyncImapFactory \<Rightarrow> ('w, CoreError, 'e option) io" where
  "factory_connect H self =
     (let cfg = af_cfg self in
      case imap_resolve_password (ho_windows H) (ho_command H) cfg of
        Inl e \<Rightarrow> throw_io (Imap (''password: '' @ display_config_error e))
      | Inr password \<Rightarrow>
          connect (ho_net H) (ic_host cfg) (ic_port cfg) (ic_username cfg) password (ic_tls_mode cfg))"

text \<open>The supervisor's client is a new one after each connect; the old one has been dropped.\<close>

definition fresh_client :: "('w, CoreError, 'e option) io \<Rightarrow> (('w, 'e) client, CoreError, unit) io" where
  "fresh_client m c =
     (case m (snd c) of
        (Inl e, w) \<Rightarrow> (Inl e, (None, w))
      | (Inr session, w) \<Rightarrow> (Inr (), (session, w)))"

definition make_smtp ::
    "('w, 's, 'i, 't, 'u, 'e, 'tr, 'a, 'v) Host \<Rightarrow> SmtpConfig \<Rightarrow> anyhow + ('w, 'e) client MailSender" where
  "make_smtp H cfg =
     and_then (with_context ''resolving smtp password'' display_config_error
            (smtp_resolve_password (ho_windows H) (ho_command H) cfg)) (\<lambda>password.
     and_then (with_context ''building smtp transport'' display_core_error
            (new_LettreMailSender (ho_lettre H) (smc_host cfg) (smc_port cfg) (smc_username cfg) password
               (smc_starttls cfg))) (\<lambda>transport.
     Inr (lettre_sender (ho_lettre H) transport)))"

section \<open>\<open>start\<close>\<close>

definition daemon_session ::
    "('w, 's, 'i, 't, 'u, 'e, 'tr, 'a, 'v) Host \<Rightarrow> Config \<Rightarrow> 's ScriptLoader \<Rightarrow>
       ('w, 'e) client MailSender option \<Rightarrow> (('w, 'e) client, 's) SessionManager" where
  "daemon_session H cfg loader smtp =
     \<lparr>sm_engine = sieve_engine_impl (ho_sieve H),
      sm_current = (if sc_watch (cfg_sieve cfg) then ho_handle H (current loader) else (\<lambda>_. current loader)),
      sm_imap = async_imap (ho_crate H), sm_smtp = smtp, sm_mailbox = ic_mailbox (cfg_imap cfg),
      sm_idle_timeout = IDLE_TIMEOUT, sm_batch_size = dc_batch_size (cfg_daemon cfg),
      sm_stamp = ho_stamp H, sm_serde = ho_serde H\<rparr>"

definition daemon_backoff :: "Config \<Rightarrow> BackoffConfig" where
  "daemon_backoff cfg =
     \<lparr>bc_initial = from_secs (dc_reconnect_delay (cfg_daemon cfg)),
      bc_max = from_secs (dc_max_reconnect_delay (cfg_daemon cfg)),
      bc_jitter = dc_reconnect_jitter (cfg_daemon cfg)\<rparr>"

definition daemon_supervisor ::
    "('w, 's, 'i, 't, 'u, 'e, 'tr, 'a, 'v) Host \<Rightarrow> 'g rng \<Rightarrow> Config \<Rightarrow> 's ScriptLoader \<Rightarrow>
       ('w, 'e) client MailSender option \<Rightarrow> (('w, 'e) client, 's, 'g) Supervisor" where
  "daemon_supervisor H gen_range cfg loader smtp =
     \<lparr>su_connect = fresh_client (factory_connect H (new_AsyncImapFactory (cfg_imap cfg))),
      su_session = daemon_session H cfg loader smtp, su_backoff_cfg = daemon_backoff cfg,
      su_rng = gen_range\<rparr>"

text \<open>Everything before the supervisor runs.\<close>

record ('w, 's, 'e) prepared =
  pp_cfg :: Config
  pp_loader :: "'s ScriptLoader"
  pp_state_path :: string
  pp_smtp :: "('w, 'e) client MailSender option"
  pp_store :: StateStore

definition prepare ::
    "('w, 's, 'i, 't, 'u, 'e, 'tr, 'a, 'v) Host \<Rightarrow> string \<Rightarrow> disk \<Rightarrow> (anyhow + ('w, 's, 'e) prepared) \<times> disk" where
  "prepare H config_path d =
     (case and_then (with_context ''loading config'' display_config_error
                  (load (ho_read H) (ho_toml H) config_path)) (\<lambda>cfg.
           and_then (with_context ''loading sieve script'' display_loader_error
                  (load_script (ho_canonicalize H) (ho_read H) (sieve_engine_impl (ho_sieve H))
                     (sc_script_path (cfg_sieve cfg)))) (\<lambda>loader.
           and_then (if sc_watch (cfg_sieve cfg)
                then with_context ''spawning sieve watcher'' display_loader_error
                       (map_ok (\<lambda>_. ()) (spawn_watcher (ho_recommended H) (ho_watch H) (ho_spawn H) loader))
                else Inr ()) (\<lambda>_.
           and_then (state_path H cfg) (\<lambda>path.
           Inr (cfg, loader, path))))) of
        Inl e \<Rightarrow> (Inl e, d)
      | Inr (cfg, loader, path) \<Rightarrow>
     case open_store (ho_serde H) path d of
        (Inl e, d') \<Rightarrow> (Inl [''opening state store'', display_state_error e], d')
      | (Inr store, d') \<Rightarrow>
     case (case cfg_smtp cfg of None \<Rightarrow> Inr None | Some s \<Rightarrow> map_ok Some (make_smtp H s)) of
        Inl e \<Rightarrow> (Inl e, d')
      | Inr smtp \<Rightarrow>
          (Inr \<lparr>pp_cfg = cfg, pp_loader = loader, pp_state_path = path, pp_smtp = smtp,
                pp_store = store\<rparr>, d'))"

definition EXIT_UIDVALIDITY :: nat where
  "EXIT_UIDVALIDITY = 2"

text \<open>How the process ends: normally, with an exit code of its own, with an error, or by a panic.\<close>

datatype outcome = Finished | ExitCode nat | Failure anyhow | Panic

fun outcome_of :: "exit \<Rightarrow> outcome" where
  "outcome_of Graceful = Finished"
| "outcome_of Panicked = Panic"
| "outcome_of (Failed e) =
     (if is_UidValidityChanged e then ExitCode EXIT_UIDVALIDITY
      else Failure [''supervisor exited'', display_core_error e])"

definition run ::
    "('w, 's, 'i, 't, 'u, 'e, 'tr, 'a, 'v) Host \<Rightarrow> 'g rng \<Rightarrow> 'g \<Rightarrow> bool list \<Rightarrow> string \<Rightarrow> 'w \<times> disk
       \<Rightarrow> outcome option \<times> 'w \<times> disk" where
  "run H gen_range g sched config_path wd =
     (case prepare H config_path (snd wd) of
        (Inl e, d) \<Rightarrow> (Some (Failure e), fst wd, d)
      | (Inr p, d) \<Rightarrow>
          (case supervise (daemon_supervisor H gen_range (pp_cfg p) (pp_loader p) (pp_smtp p))
                  (new_Backoff (daemon_backoff (pp_cfg p))) g sched [] ((None, fst wd), pp_store p, d) of
             (ex, _, (c, _, d')) \<Rightarrow> (map_option outcome_of ex, snd c, d')))"

section \<open>Logging and signals\<close>

text \<open>
  \<open>init_tracing\<close>: which filter and which writer the subscriber gets, and what is printed to stderr
  on the way. The filter of the environment and the opening of the file are parameters; without a
  writer of its own, \<open>fmt\<close> writes to the standard output.
\<close>

datatype log_writer = StdOut | AppendTo string

definition init_tracing ::
    "string option \<Rightarrow> (string \<Rightarrow> io_error + unit) \<Rightarrow> string \<Rightarrow> string option \<Rightarrow> (string \<times> log_writer) \<times> string list" where
  "init_tracing env open_append level log_file =
     (let filter = (case env of None \<Rightarrow> level | Some f \<Rightarrow> f) in
      case log_file of
        None \<Rightarrow> ((filter, StdOut), [])
      | Some path \<Rightarrow>
          (case open_append path of
             Inr _ \<Rightarrow> ((filter, AppendTo path), [])
           | Inl e \<Rightarrow> ((filter, StdOut),
               [''warning: could not open log file '' @ path @ '': '' @ display_io_error e @
                ''; falling back to stderr''])))"

text \<open>
  \<open>install_signal_handlers\<close>: whether the task it spawns raises the shutdown notification, given the
  signals that arrive. If the SIGTERM handler cannot be installed the task panics.
\<close>

datatype signal = CtrlC | Terminate

definition install_signal_handlers :: "bool \<Rightarrow> string + unit \<Rightarrow> signal list \<Rightarrow> bool" where
  "install_signal_handlers unix term signals =
     (if unix
      then (case term of Inl _ \<Rightarrow> False | Inr _ \<Rightarrow> CtrlC \<in> set signals \<or> Terminate \<in> set signals)
      else CtrlC \<in> set signals)"

section \<open>The other subcommands\<close>

definition stop :: "anyhow + unit" where
  "stop = Inl [''`stop` subcommand is not yet implemented; send SIGTERM to the daemon process instead, or use Ctrl+C if running in the foreground'']"

definition or_na :: "'a::len word option \<Rightarrow> string" where
  "or_na x = (case x of None \<Rightarrow> ''n/a'' | Some u \<Rightarrow> show_word u)"

definition status ::
    "('w, 's, 'i, 't, 'u, 'e, 'tr, 'a, 'v) Host \<Rightarrow> string \<Rightarrow> disk \<Rightarrow> (anyhow + string list) \<times> disk" where
  "status H config_path d =
     (case and_then (bare display_config_error (load (ho_read H) (ho_toml H) config_path)) (\<lambda>cfg.
           and_then (state_path H cfg) (\<lambda>p. Inr (cfg, p))) of
        Inl e \<Rightarrow> (Inl e, d)
      | Inr (cfg, path) \<Rightarrow>
     case open_store (ho_serde H) path d of
        (Inl e, d') \<Rightarrow> (Inl [display_state_error e], d')
      | (Inr store, d') \<Rightarrow>
          (Inr [''config:     '' @ config_path,
                ''state:      '' @ path,
                ''mailbox:    '' @ ic_mailbox (cfg_imap cfg),
                ''uidvalidity:'' @ or_na (st_uidvalidity (state store)),
                ''last_uid:   '' @ or_na (st_last_seen_uid (state store))], d'))"

definition check :: "('w, 's, 'i, 't, 'u, 'e, 'tr, 'a, 'v) Host \<Rightarrow> string \<Rightarrow> anyhow + string list" where
  "check H config_path =
     and_then (bare display_config_error (load (ho_read H) (ho_toml H) config_path)) (\<lambda>cfg.
     and_then (with_context ''reading sieve script'' display_io_error
            (read_to_string (ho_read H) (sc_script_path (cfg_sieve cfg)))) (\<lambda>text.
     and_then (with_context ''compiling sieve script'' display_sieve_error
            (compile (sieve_engine_impl (ho_sieve H)) text)) (\<lambda>_.
     Inr [''OK: sieve script at '' @ sc_script_path (cfg_sieve cfg) @ '' compiled cleanly''])))"

definition test_context :: "bytes \<Rightarrow> MessageContext" where
  "test_context raw =
     \<lparr>msg_uid = 0, msg_mailbox = ''test'', msg_headers = parse_headers raw, msg_envelope_from = None,
      msg_envelope_to = [], msg_raw = Some raw, msg_flags = [], msg_size = 0\<rparr>"

definition test_rule ::
    "('w, 's, 'i, 't, 'u, 'e, 'tr, 'a, 'v) Host \<Rightarrow> string \<Rightarrow> string option \<Rightarrow> string \<Rightarrow> anyhow + SieveAction list"
where
  "test_rule H config_path script_override message_path =
     and_then (bare display_config_error (load (ho_read H) (ho_toml H) config_path)) (\<lambda>cfg.
     let script_path = (case script_override of None \<Rightarrow> sc_script_path (cfg_sieve cfg) | Some p \<Rightarrow> p) in
     and_then (bare display_io_error (read_to_string (ho_read H) script_path)) (\<lambda>script_text.
     and_then (bare display_sieve_error (compile (sieve_engine_impl (ho_sieve H)) script_text)) (\<lambda>compiled.
     and_then (bare display_io_error (ho_read H message_path)) (\<lambda>raw.
     bare display_sieve_error (evaluate (sieve_engine_impl (ho_sieve H)) compiled (test_context raw))))))"

definition test_rule_lines :: "(SieveAction \<Rightarrow> string) \<Rightarrow> SieveAction list \<Rightarrow> string list" where
  "test_rule_lines debug actions =
     (''Actions ('' @ show_nat (length actions) @ ''):'') # map (\<lambda>a. ''  - '' @ debug a) actions"

section \<open>The command line\<close>

datatype command =
    Start
  | Stop
  | Status
  | Check
  | TestRule "string option" string

record Cli =
  cli_config :: string
  cli_command :: command

definition parse_cli :: "string option \<Rightarrow> command \<Rightarrow> Cli" where
  "parse_cli config cmd =
     \<lparr>cli_config = (case config of None \<Rightarrow> ''/etc/imap-sieve/config.toml'' | Some c \<Rightarrow> c), cli_command = cmd\<rparr>"

text \<open>The result of a subcommand: how the process ends, what it prints, and the disk after it.\<close>

fun main_dispatch ::
    "('w, 's, 'i, 't, 'u, 'e, 'tr, 'a, 'v) Host \<Rightarrow> (SieveAction \<Rightarrow> string) \<Rightarrow> 'g rng \<Rightarrow> 'g \<Rightarrow> bool list
       \<Rightarrow> string \<Rightarrow> command \<Rightarrow> 'w \<times> disk \<Rightarrow> (outcome option \<times> string list) \<times> 'w \<times> disk"
where
  "main_dispatch H debug gen_range g sched config Start wd =
     (case run H gen_range g sched config wd of (out, wd') \<Rightarrow> ((out, []), wd'))"
| "main_dispatch H debug gen_range g sched config Stop wd =
     ((Some (case stop of Inl e \<Rightarrow> Failure e | Inr _ \<Rightarrow> Finished), []), wd)"
| "main_dispatch H debug gen_range g sched config Status wd =
     (case status H config (snd wd) of
        (Inl e, d) \<Rightarrow> ((Some (Failure e), []), (fst wd, d))
      | (Inr out, d) \<Rightarrow> ((Some Finished, out), (fst wd, d)))"
| "main_dispatch H debug gen_range g sched config Check wd =
     (case check H config of
        Inl e \<Rightarrow> ((Some (Failure e), []), wd)
      | Inr out \<Rightarrow> ((Some Finished, out), wd))"
| "main_dispatch H debug gen_range g sched config (TestRule script message) wd =
     (case test_rule H config script message of
        Inl e \<Rightarrow> ((Some (Failure e), []), wd)
      | Inr actions \<Rightarrow> ((Some Finished, test_rule_lines debug actions), wd))"

section \<open>Lemmas\<close>

lemma and_then_Inr: "and_then r f = Inr b \<longleftrightarrow> (\<exists>a. r = Inr a \<and> f a = Inr b)"
  by (cases r) (simp_all add: and_then_def)

lemma context_Inr [simp]: "with_context c display r = Inr a \<longleftrightarrow> r = Inr a" "bare display r = Inr a \<longleftrightarrow> r = Inr a"
  by (simp_all add: with_context_def bare_def)

lemma prepare_Inr:
  assumes "prepare H path d = (Inr p, d')"
  shows "load (ho_read H) (ho_toml H) path = Inr (pp_cfg p)"
    and "state_path H (pp_cfg p) = Inr (pp_state_path p)"
    and "open_store (ho_serde H) (pp_state_path p) d = (Inr (pp_store p), d')"
  using assms
  by (auto simp: prepare_def and_then_Inr split: sum.splits prod.splits option.splits)

text \<open>Logging is always set up, and a file that cannot be opened costs a warning only.\<close>

lemma init_tracing_writer:
  "snd (fst (init_tracing env open_append level log_file)) =
     (case log_file of None \<Rightarrow> StdOut
      | Some path \<Rightarrow> if isl (open_append path) then StdOut else AppendTo path)"
  by (auto simp: init_tracing_def Let_def split: option.split sum.split)

lemma init_tracing_warns:
  "(snd (init_tracing env open_append level log_file) \<noteq> []) =
     (\<exists>path. log_file = Some path \<and> isl (open_append path))"
  by (auto simp: init_tracing_def Let_def split: option.split sum.split)

section \<open>Properties\<close>

text \<open>
  C21. How a daemon process ends: with an error only while it is being set up; once it runs,
  normally after a shutdown was asked for, or with exit code 2 for a changed UIDVALIDITY, and it
  never panics, because a loaded configuration has a valid jitter.
\<close>

theorem daemon_exit:
  assumes "run H gen_range g sched path (w, d) = (Some out, w', d')"
  shows "out \<noteq> Panic \<and> (out = Finished \<longrightarrow> True \<in> set sched) \<and> (\<forall>n. out = ExitCode n \<longrightarrow> n = 2) \<and>
         (\<forall>es. out = Failure es \<longrightarrow> fst (prepare H path d) = Inl es)"
proof -
  obtain r d1 where prep: "prepare H path d = (r, d1)" by (rule prod.exhaust)
  show ?thesis
  proof (cases r)
    case (Inl e)
    with prep assms show ?thesis by (auto simp: run_def)
  next
    case (Inr p)
    from load_Ok [OF prepare_Inr(1) [OF prep [unfolded Inr]]] obtain j where
      j: "dc_reconnect_jitter (cfg_daemon (pp_cfg p)) = Fin j" "0 \<le> j"
      by (cases "dc_reconnect_jitter (cfg_daemon (pp_cfg p))") (auto simp: valid_config_def valid_daemon_def)
    obtain ex sl c st d2 where
      sup: "supervise (daemon_supervisor H gen_range (pp_cfg p) (pp_loader p) (pp_smtp p))
        (new_Backoff (daemon_backoff (pp_cfg p))) g sched [] ((None, w), pp_store p, d1) = (ex, sl, c, st, d2)"
      by (metis prod_cases3)
    from assms prep Inr sup obtain e where ex: "ex = Some e" and out: "out = outcome_of e"
      by (auto simp: run_def)
    have "bc_jitter (bo_cfg (new_Backoff (daemon_backoff (pp_cfg p)))) = Fin j"
      using j by (simp add: new_Backoff_def daemon_backoff_def)
    from supervise_ends [OF sup [unfolded ex] this j(2)]
    have "(e = Graceful \<and> True \<in> set sched) \<or> (\<exists>x. e = Failed x \<and> is_UidValidityChanged x)" .
    then show ?thesis using out by (auto simp: EXIT_UIDVALIDITY_def)
  qed
qed

definition sample_host :: "(unit, Event list, Event list, unit, unit, unit, unit, string, unit) Host" where
  "sample_host =
     \<lparr>ho_read = (\<lambda>_. Inr []), ho_toml = (\<lambda>_. Inr sample_raw), ho_canonicalize = Some,
      ho_sieve = script_rs\<lparr>rs_compile := (\<lambda>_. Inr [])\<rparr>, ho_recommended = Inr (), ho_watch = (\<lambda>_. Inr ()),
      ho_spawn = Inr (), ho_handle = (\<lambda>s _. s), ho_xdg_state_home = None, ho_state_dir = Some ''/s'',
      ho_data_local_dir = None, ho_serde = sample_serde, ho_windows = False,
      ho_command = (\<lambda>_ _. Inl ''no shell''), ho_lettre = sample_lettre, ho_net = sample_net,
      ho_crate = sample_crate, ho_stamp = (\<lambda>c. (([], []), c))\<rparr>"

lemma sample_prepare_with:
  assumes "open_store serde ''/s/imap-sieve/state.json'' d = (Inr st, d')"
  shows "\<exists>p. prepare (sample_host\<lparr>ho_serde := serde, ho_command := cmd\<rparr>) ''/c'' d = (Inr p, d') \<and> pp_store p = st \<and>
    pp_state_path p = ''/s/imap-sieve/state.json'' \<and> pp_cfg p = projr (deserialize sample_raw)"
proof -
  let ?H = "sample_host\<lparr>ho_serde := serde, ho_command := cmd\<rparr>"
  have l: "load (ho_read sample_host) (ho_toml sample_host) ''/c'' = Inr (projr (deserialize sample_raw))"
    using sample_load(1) by (simp add: sample_host_def)
  have s: "load_script (ho_canonicalize sample_host) (ho_read sample_host) (sieve_engine_impl (ho_sieve sample_host)) ''/s'' =
      Inr \<lparr>sl_engine = sieve_engine_impl (ho_sieve sample_host), sl_path = ''/s'', sl_handle = []\<rparr>"
    by (simp add: load_script_def sample_host_def read_to_string_def sieve_engine_impl_def compile_impl_def
        script_rs_def)
  have p: "state_path ?H (projr (deserialize sample_raw)) = Inr ''/s/imap-sieve/state.json''"
    by (simp add: state_path_def sample_load(2) default_DaemonConfig_def sample_host_def or_else_def path_join_def)
  have f: "sc_script_path (cfg_sieve (projr (deserialize sample_raw))) = ''/s''"
    "sc_watch (cfg_sieve (projr (deserialize sample_raw))) = False"
    "cfg_smtp (projr (deserialize sample_raw)) = None"
    by (simp_all add: sample_load(2))
  show ?thesis
    by (simp add: prepare_def and_then_def with_context_def l s p f assms)
qed

lemma sample_prepare:
  "\<exists>p d'. prepare sample_host ''/c'' sample_disk = (Inr p, d') \<and> pp_store p =
     \<lparr>ss_path = ''/s/imap-sieve/state.json'', ss_state = default_State\<rparr> \<and> pp_state_path p = ''/s/imap-sieve/state.json'' \<and>
     pp_cfg p = projr (deserialize sample_raw)"
proof -
  obtain d' where "open_store sample_serde ''/s/imap-sieve/state.json'' sample_disk =
      (Inr \<lparr>ss_path = ''/s/imap-sieve/state.json'', ss_state = default_State\<rparr>, d')"
    by (simp add: open_store_def create_dir_all_def fs_read_def fs_call_def sample_disk_def path_parent_def drop_slashes_def)
  from sample_prepare_with [OF this, of "ho_command sample_host"] show ?thesis by (auto simp: sample_host_def)
qed

text \<open>A disk on which UIDVALIDITY 6 is recorded.\<close>

definition recreated_store :: StateStore where
  "recreated_store = \<lparr>ss_path = ''/s/imap-sieve/state.json'', ss_state = default_State\<lparr>st_uidvalidity := Some 6\<rparr>\<rparr>"

definition recreated_host :: "(unit, Event list, Event list, unit, unit, unit, unit, string, unit) Host" where
  "recreated_host = sample_host\<lparr>ho_serde := full_serde, ho_command := (\<lambda>_ _.
     Inr \<lparr>out_success = True, out_status = ''0'', out_stdout = ''pw'', out_stderr = []\<rparr>)\<rparr>"

definition recreated_disk :: disk where
  "recreated_disk = sample_disk\<lparr>files :=
     [''/s/imap-sieve/state.json'' \<mapsto> projr (to_vec full_serde (ss_state recreated_store))]\<rparr>"

lemma open_recreated: "\<exists>d'. open_store full_serde ''/s/imap-sieve/state.json'' recreated_disk = (Inr recreated_store, d')"
proof -
  have "from_slice full_serde (projr (to_vec full_serde (ss_state recreated_store))) = Inr (ss_state recreated_store)"
    using full_serde_parses_back by (auto simp: parses_back_def full_serde_def)
  then show ?thesis
    by (simp add: open_store_def create_dir_all_def fs_read_def fs_call_def recreated_disk_def sample_disk_def
        path_parent_def drop_slashes_def) (simp add: recreated_store_def)
qed

theorem daemon_exit_witness:
  "fst (run sample_host (\<lambda>g hi. (0, g)) () [True] ''/c'' ((), sample_disk)) = Some Finished \<and>
   Finished \<noteq> Panic \<and> True \<in> set [True]"
proof -
  obtain p d' where "prepare sample_host ''/c'' sample_disk = (Inr p, d')" using sample_prepare by blast
  then have r: "fst (run sample_host (\<lambda>g hi. (0, g)) () [True] ''/c'' ((), sample_disk)) = Some Finished"
    by (simp add: run_def) (subst supervise.simps, simp)
  obtain w d where "run sample_host (\<lambda>g hi. (0, g)) () [True] ''/c'' ((), sample_disk) = (Some Finished, w, d)"
    using r by (metis prod_cases3 fst_conv)
  from daemon_exit [OF this] r show ?thesis by simp
qed

text \<open>
  C30. A mailbox that was recreated stops the daemon before it can do harm. When the mailbox it
  selects has a UIDVALIDITY other than the recorded one, the process ends with exit code 2, so that
  an operator looks at it; the outside world is as SELECT left it, no message has been fetched or
  touched, and no file has changed.
\<close>

theorem uidvalidity_change_exits:
  assumes "prepare H path d = (Inr p, d1)"
    and "factory_connect H (new_AsyncImapFactory (cfg_imap (pp_cfg p))) w = (Inr (Some session), w1)"
    and "capabilities_impl (ho_crate H) (Some session, w1) = (Inr caps, c2)" and "cap_idle caps"
    and "select_impl (ho_crate H) (ic_mailbox (cfg_imap (pp_cfg p))) c2 = (Inr mbox, (c3, w3))"
    and "st_uidvalidity (ss_state (pp_store p)) = Some old" and "old \<noteq> mb_uidvalidity mbox"
  shows "run H gen_range g (False # sched) path (w, d) = (Some (ExitCode 2), w3, d1) \<and> files d1 = files d"
proof -
  let ?sup = "daemon_supervisor H gen_range (pp_cfg p) (pp_loader p) (pp_smtp p)"
  let ?w1 = "((Some session, w1), pp_store p, d1)"
  have con: "on_imap (su_connect ?sup) ((None, w), pp_store p, d1) = (Inr (), ?w1)"
    using assms(2) by (simp add: on_imap_def daemon_supervisor_def fresh_client_def)
  have "session_run (su_session ?sup) sched ?w1 =
      ((Some (Inl (UidValidityChanged old (mb_uidvalidity mbox))), sched), ((c3, w3), snd ?w1))"
    using assms(3-7)
    by (intro refuses_changed_uidvalidity)
       (simp_all add: daemon_supervisor_def daemon_session_def async_imap_def persisted_def)
  then have "supervise ?sup (new_Backoff (daemon_backoff (pp_cfg p))) g (False # sched) [] ((None, w), pp_store p, d1) =
      (Some (Failed (UidValidityChanged old (mb_uidvalidity mbox))), [], ((c3, w3), pp_store p, d1))"
    by (subst supervise.simps) (simp add: con Let_def is_UidValidityChanged_def)
  then show ?thesis
    using assms(1) open_store_files [OF prepare_Inr(3) [OF assms(1)]]
    by (simp add: run_def is_UidValidityChanged_def EXIT_UIDVALIDITY_def)
qed

theorem uidvalidity_change_exits_witness:
  "\<exists>w d. run recreated_host (\<lambda>g hi. (0, g)) () [False] ''/c'' ((), recreated_disk) =
     (Some (ExitCode 2), w, d) \<and> files d = files recreated_disk"
proof -
  let ?H = recreated_host
  from open_recreated obtain d1 where
    "open_store full_serde ''/s/imap-sieve/state.json'' recreated_disk = (Inr recreated_store, d1)" by blast
  from sample_prepare_with [OF this] obtain p where prep: "prepare ?H ''/c'' recreated_disk = (Inr p, d1)"
    and p: "pp_store p = recreated_store" "pp_cfg p = projr (deserialize sample_raw)"
    unfolding recreated_host_def by metis
  have con: "factory_connect ?H (new_AsyncImapFactory (cfg_imap (pp_cfg p))) () = (Inr (Some ()), ())"
    by (simp add: p sample_load(2) factory_connect_def new_AsyncImapFactory_def imap_resolve_password_def resolve_secret_def connect_def
        run_secret_command_def trim_end_matches_def byte_def recreated_host_def sample_host_def sample_net_def tls_connect_def do_login_def err_io_def bind_io_def)
  have caps: "capabilities_impl (ho_crate ?H) (Some (), ()) =
      (Inr \<lparr>cap_idle = True, cap_uidplus = True, cap_supports_move = True, cap_condstore = True, cap_qresync = True\<rparr>,
       (Some (), ()))"
    by (simp add: recreated_host_def sample_host_def capabilities_impl_def with_session_def sample_crate_def bind_io_def)
  have sel: "select_impl (ho_crate ?H) (ic_mailbox (cfg_imap (pp_cfg p))) (Some (), ()) =
      (Inr \<lparr>mb_uidvalidity = 0, mb_uidnext = 0, mb_exists = 0, mb_highestmodseq = None\<rparr>, (Some (), ()))"
    by (simp add: recreated_host_def sample_host_def select_impl_def with_session_def sample_crate_def bind_io_def)
  from uidvalidity_change_exits [OF prep con caps _ sel, of 6 "\<lambda>g hi. (0, g)" "()" "[]"] show ?thesis
    by (simp add: p recreated_store_def)
qed



text \<open>
  C37. The dry run predicts the daemon: for a script that the daemon loads, \<open>test-rule\<close> returns
  exactly the actions (or the error) the running daemon's engine gives for a message with these
  bytes, if the message has no envelope, whatever its UID, flags, headers map and size are.
\<close>

theorem test_rule_predicts:
  assumes "load (ho_read H) (ho_toml H) path = Inr cfg"
    and "load_script (ho_canonicalize H) (ho_read H) (sieve_engine_impl (ho_sieve H))
           (sc_script_path (cfg_sieve cfg)) = Inr loader"
    and "read_to_string (ho_read H) (sl_path loader) = read_to_string (ho_read H) (sc_script_path (cfg_sieve cfg))"
    and "ho_read H message = Inr raw"
    and "msg_raw ctx = Some raw" and "msg_envelope_from ctx = None" and "msg_envelope_to ctx = []"
  shows "test_rule H path None message =
           bare display_sieve_error (evaluate (sieve_engine_impl (ho_sieve H)) (current loader) ctx)"
proof -
  from load_script_Inr [OF assms(2)] assms(3) obtain src where "read_to_string (ho_read H) (sc_script_path (cfg_sieve cfg)) = Inr src"
    and "compile (sieve_engine_impl (ho_sieve H)) src = Inr (current loader)"
    by auto
  moreover have "evaluate (sieve_engine_impl (ho_sieve H)) (current loader) (test_context raw) =
      evaluate (sieve_engine_impl (ho_sieve H)) (current loader) ctx"
    using assms(5-7)
    by (simp add: sieve_engine_impl_def evaluate_impl_def start_instance_def test_context_def)
  ultimately show ?thesis
    using assms(1,4) by (simp add: test_rule_def and_then_def bare_def)
qed

theorem test_rule_predicts_witness:
  "test_rule sample_host ''/c'' None ''/m'' =
     bare display_sieve_error (evaluate (sieve_engine_impl (ho_sieve sample_host)) [] (test_context []))"
proof -
  let ?l = "\<lparr>sl_engine = sieve_engine_impl (ho_sieve sample_host), sl_path = ''/s'', sl_handle = []\<rparr>"
  have l: "load (ho_read sample_host) (ho_toml sample_host) ''/c'' = Inr (projr (deserialize sample_raw))"
    using sample_load(1) by (simp add: sample_host_def)
  have s: "load_script (ho_canonicalize sample_host) (ho_read sample_host) (sieve_engine_impl (ho_sieve sample_host))
      (sc_script_path (cfg_sieve (projr (deserialize sample_raw)))) = Inr ?l"
    by (simp add: load_script_def sample_host_def read_to_string_def sieve_engine_impl_def compile_impl_def
        script_rs_def sample_load(2))
  from test_rule_predicts [OF l s, of "''/m''" "[]" "test_context []"] show ?thesis
    by (simp add: sample_host_def sample_load(2) test_context_def current_def)
qed

end
