(* ===== verification/Delivery.thy ===== *)
theory Delivery
  imports Session Async_Imap "HOL-Library.Sublist"
begin

text \<open>
  Delivery as a whole: what the batches of a session do to the queue of messages that wait in the
  mailbox. The abstract view of a world is the list of the messages beyond the recorded UID; a batch
  takes messages from the front of it, while new mail arrives at its end.

  The server is described by the documented behaviour of IMAP, as the predicate \<open>imap_server\<close>: UIDs
  are unique and ascending, new mail gets greater ones, \<open>UID FETCH n:*\<close> returns the messages from
  \<open>n\<close> on, or the last message if there is none, and a command about one message leaves the others.
  Where a property needs it, UIDs are given once (\<open>assigns_fresh_uids\<close>) and a MOVE takes the message
  out of the mailbox (\<open>move_removes\<close>). Liveness is stated for a \<open>healthy\<close> system, whose operations
  succeed in \<open>good\<close> worlds and lead to good ones. Two servers to evaluate on: a list of UIDs as a
  client of its own, and the production client over a small crate.
\<close>

section \<open>A mailbox on a server\<close>

definition pending :: "u32 \<Rightarrow> MessageContext list \<Rightarrow> MessageContext list" where
  "pending u box = filter (\<lambda>m. u < msg_uid m) box"

text \<open>The messages of \<open>n:*\<close>: the range between \<open>n\<close> and the greatest UID, in either order.\<close>

definition star_range :: "u32 \<Rightarrow> MessageContext list \<Rightarrow> MessageContext list" where
  "star_range n box =
     (if \<exists>m \<in> set box. n \<le> msg_uid m then filter (\<lambda>m. n \<le> msg_uid m) box
      else if box = [] then [] else [last box])"

definition others :: "u32 \<Rightarrow> MessageContext list \<Rightarrow> MessageContext list" where
  "others u box = filter (\<lambda>m. msg_uid m \<noteq> u) box"

definition imap_server :: "'w ImapClient \<Rightarrow> string \<Rightarrow> ('w \<Rightarrow> MessageContext list) \<Rightarrow> bool" where
  "imap_server C mailbox box \<longleftrightarrow>
     (\<forall>w. sorted_wrt (<) (map msg_uid (box w))) \<and>
     (\<forall>w n msgs w'. fetch_uid_range C mailbox n None w = (Inr msgs, w') \<longrightarrow>
        prefix (box w) (box w') \<and> msgs = star_range n (box w')) \<and>
     (\<forall>u op w. about u op \<longrightarrow> prefix (others u (box w)) (others u (box (snd (run_op C op w)))))"

text \<open>Sending a mail and reading the clock change nothing in the mailbox; mail may arrive meanwhile.\<close>

definition mail_only_arrives :: "('w, 's) MessageProcessor \<Rightarrow> ('w \<Rightarrow> MessageContext list) \<Rightarrow> bool" where
  "mail_only_arrives self box \<longleftrightarrow>
     (\<forall>s m w. mp_smtp self = Some s \<longrightarrow> prefix (box w) (box (snd (send s m w)))) \<and>
     (\<forall>w. prefix (box w) (box (snd (mp_stamp self w))))"

section \<open>Lemmas about the queue\<close>

lemma prefix_filter: "prefix xs ys \<Longrightarrow> prefix (filter P xs) (filter P ys)"
  by (auto simp: prefix_def)

lemma prefix_pending: "prefix box box' \<Longrightarrow> prefix (pending u box) (pending u box')"
  unfolding pending_def by (rule prefix_filter)

lemma prefix_others: "prefix box box' \<Longrightarrow> prefix (others u box) (others u box')"
  unfolding others_def by (rule prefix_filter)

lemma sorted_pending: "sorted_wrt (<) (map msg_uid box) \<Longrightarrow> sorted_wrt (<) (map msg_uid (pending u box))"
  by (simp add: pending_def sorted_wrt_map sorted_wrt_filter)

lemma pending_Nil_le: "pending u box = [] \<longleftrightarrow> (\<forall>m \<in> set box. msg_uid m \<le> u)"
  by (auto simp: pending_def filter_empty_conv not_less)

text \<open>What the batch fetches: the queue, or messages that are not beyond the record.\<close>

lemma star_range_pending:
  "pending u box \<noteq> [] \<Longrightarrow> star_range (u + 1) box = pending u box"
  "pending u box = [] \<Longrightarrow> \<forall>m \<in> set (star_range (u + 1) box). msg_uid m \<le> u"
proof -
  assume ne: "pending u box \<noteq> []"
  then obtain m where m: "m \<in> set box" "u < msg_uid m" by (auto simp: pending_def filter_empty_conv)
  then have "u \<noteq> - 1" by (metis word_n1_ge not_less)
  then have "u + 1 \<le> v \<longleftrightarrow> u < v" for v by (rule succ_le_word)
  with m show "star_range (u + 1) box = pending u box" by (auto simp: star_range_def pending_def)
next
  assume "pending u box = []"
  then have "\<forall>m \<in> set box. msg_uid m \<le> u" by (simp add: pending_Nil_le)
  moreover have "set (star_range (u + 1) box) \<subseteq> set box"
    by (auto simp: star_range_def)
  ultimately show "\<forall>m \<in> set (star_range (u + 1) box). msg_uid m \<le> u" by blast
qed

text \<open>Moving the record past the front of the queue pops it, whatever becomes of that message.\<close>

lemma pending_pop:
  assumes "sorted_wrt (<) (map msg_uid box)" and "prefix (m # ms) (pending u box)"
    and "prefix (others (msg_uid m) box) (others (msg_uid m) box')"
  shows "prefix ms (pending (msg_uid m) box')" and "u < msg_uid m"
proof -
  from assms(2) obtain tail where q: "pending u box = m # ms @ tail" by (auto simp: prefix_def)
  have "m \<in> set (pending u box)" by (simp add: q)
  then show um: "u < msg_uid m" by (simp add: pending_def)
  have above: "\<forall>x \<in> set (ms @ tail). msg_uid m < msg_uid x"
    using sorted_pending [OF assms(1), of u] by (auto simp: q)
  have "pending (msg_uid m) box = pending (msg_uid m) (pending u box)"
    using um by (auto simp: pending_def intro: filter_cong)
  also have "\<dots> = ms @ tail" using above unfolding q by (auto simp: pending_def)
  finally have "prefix ms (pending (msg_uid m) box)" by simp
  also have "pending (msg_uid m) b = pending (msg_uid m) (others (msg_uid m) b)" for b
    by (auto simp: pending_def others_def intro: filter_cong)
  then have "prefix (pending (msg_uid m) box) (pending (msg_uid m) box')"
    using prefix_pending [OF assms(3)] by metis
  finally show "prefix ms (pending (msg_uid m) box')" .
qed

section \<open>What a batch does to the queue\<close>

definition queue :: "('w \<Rightarrow> MessageContext list) \<Rightarrow> 'w world \<Rightarrow> MessageContext list" where
  "queue box w = pending (case last_seen w of None \<Rightarrow> - 1 | Some u \<Rightarrow> u) (box (fst w))"

lemma queue_Some: "last_seen w = Some u \<Longrightarrow> queue box w = pending u (box (fst w))"
  by (simp add: queue_def)

lemma executed_others:
  assumes "imap_server (mp_imap self) mailbox box" and "mail_only_arrives self box"
  shows "prefix (others (msg_uid m) (box w)) (others (msg_uid m) (box (snd (execute (executor self) m actions w))))"
proof -
  let ?R = "\<lambda>w w'. prefix (others (msg_uid m) (box w)) (others (msg_uid m) (box w'))"
  have frame: "imap_frame (mp_imap self) ?R (msg_uid m)"
    using assms(1) by unfold_locales (auto simp: imap_server_def)
  have "?R w (snd (send s mail w))" if "ae_smtp (executor self) = Some s" for s mail w
    using assms(2) that by (simp add: mail_only_arrives_def executor_def prefix_others)
  moreover have "?R w (snd (ae_stamp (executor self) w))" for w
    using assms(2) by (simp add: mail_only_arrives_def executor_def prefix_others)
  ultimately show ?thesis
    using imap_frame.execute_respects [OF frame, of "executor self" m w actions] by (simp add: executor_def)
qed

lemma handled_pops:
  assumes "imap_server (mp_imap self) mailbox box" and "mail_only_arrives self box"
  shows "handled self script msgs w rs w' \<Longrightarrow> last_seen w = Some u \<Longrightarrow>
    prefix (msgs @ rest) (queue box w) \<Longrightarrow> prefix rest (queue box w')"
proof (induction arbitrary: u rule: handled.induct)
  case (message msg actions w w' st st' msgs rs w'')
  have sorted: "sorted_wrt (<) (map msg_uid (box w))" using assms(1) by (simp add: imap_server_def)
  have "prefix (msg # (msgs @ rest)) (pending u (box w))"
    using message.prems by (simp add: queue_Some)
  moreover have "prefix (others (msg_uid msg) (box w)) (others (msg_uid msg) (box w'))"
    using executed_others [OF assms, of msg w actions] message.hyps(2) by simp
  ultimately have pop: "prefix (msgs @ rest) (pending (msg_uid msg) (box w'))" and "u < msg_uid msg"
    using pending_pop [OF sorted] by blast+
  then have "max (msg_uid msg) u = msg_uid msg" by simp
  then have "last_seen (w', st') = Some (msg_uid msg)"
    using update_advance(1) [OF message.hyps(3)] message.prems(1) by (simp add: last_seen_def)
  with message.IH [OF this] pop show ?case by (simp add: queue_Some)
qed simp

text \<open>
  The messages a batch has failed on, by their results. There is one at most, and its execution may
  have taken it out of the mailbox before it failed.
\<close>

definition failed_uids :: "ProcessingResult list \<Rightarrow> u32 set" where
  "failed_uids rs = pr_uid ` {r \<in> set rs. pr_status r \<noteq> Ok}"

definition unfailed :: "ProcessingResult list \<Rightarrow> MessageContext list \<Rightarrow> MessageContext list" where
  "unfailed rs = filter (\<lambda>m. msg_uid m \<notin> failed_uids rs)"

lemma ends_keeps_queue:
  assumes "imap_server (mp_imap self) mailbox box" and "mail_only_arrives self box"
    and "ends self script rest w how (Inr ts) w'" and "prefix (rest @ later) (queue box w)"
    and "last_seen w = Some u"
  shows "prefix (unfailed ts (rest @ later)) (unfailed ts (queue box w'))"
proof (cases how)
  case (ActFailed actions e)
  with assms(3) obtain msg msgs where rest: "rest = msg # msgs" and st: "snd w' = snd w"
    and ex: "execute (executor self) msg actions (fst w) = (Inl e, fst w')"
    and "ts = [\<lparr>pr_uid = msg_uid msg, pr_actions = actions, pr_status = ActionError (display_core_error e)\<rparr>]"
    by auto
  then have ts: "failed_uids ts = {msg_uid msg}" by (auto simp: failed_uids_def)
  have "prefix (others (msg_uid msg) (box (fst w))) (others (msg_uid msg) (box (fst w')))"
    using executed_others [OF assms(1,2), of msg "fst w" actions] ex by simp
  moreover have "others v (pending u b) = pending u (others v b)" for v b
    by (auto simp: others_def pending_def conj_commute)
  ultimately have "prefix (others (msg_uid msg) (queue box w)) (others (msg_uid msg) (queue box w'))"
    using st assms(5) by (simp add: queue_def last_seen_def prefix_pending)
  moreover have "unfailed ts = others (msg_uid msg)"
    by (simp add: unfailed_def others_def ts fun_eq_iff)
  moreover have "prefix (others (msg_uid msg) (rest @ later)) (others (msg_uid msg) (queue box w))"
    using assms(4) by (rule prefix_others)
  ultimately show ?thesis by (metis prefix_order.trans)
next
  case Complete
  then show ?thesis using assms(3,4) by (simp add: unfailed_def prefix_filter)
next
  case (EvalFailed e)
  then show ?thesis using assms(3) prefix_filter [OF assms(4)] unfolding unfailed_def by auto
next
  case (SaveFailed e)
  then show ?thesis using assms(3) by simp
qed

lemma failed_uids_append: "failed_uids (rs @ ts) = failed_uids rs \<union> failed_uids ts"
  by (auto simp: failed_uids_def)

lemma failed_uids_Ok: "\<forall>r \<in> set rs. pr_status r = Ok \<Longrightarrow> failed_uids rs = {}"
  by (simp add: failed_uids_def)

text \<open>A batch that returns, on a server as described, seen from the queue it has fetched.\<close>

lemma batch_queue:
  assumes server: "imap_server (mp_imap self) (mp_mailbox self) box" and quiet: "mail_only_arrives self box"
    and caps: "\<not> cap_condstore (mp_caps self)" and u: "last_seen w = Some u"
    and run: "run_batch self w = (Inr rs, w')"
  shows "\<exists>w0. prefix (box (fst w)) (box w0) \<and>
    (pending u (box w0) = [] \<or> map pr_uid rs = map msg_uid (take (length rs) (pending u (box w0)))) \<and>
    prefix (unfailed rs (drop (ok_count rs) (pending u (box w0)))) (unfailed rs (queue box w')) \<and>
    (pending u (box w0) = [] \<or> failed_uids rs \<noteq> {} \<or>
       length rs = min (unat (mp_batch_size self)) (length (pending u (box w0)))) \<and>
    (\<exists>u'. last_seen w' = Some u' \<and> u \<le> u' \<and>
       (\<forall>m \<in> set (take (ok_count rs) (pending u (box w0))). msg_uid m \<le> u'))"
proof -
  obtain msgs w0 where f: "fetch_uid_range (mp_imap self) (mp_mailbox self) (u + 1) None (fst w) = (Inr msgs, w0)"
    using run u caps by (auto simp: run_batch_def Let_def split: prod.splits sum.splits)
  then have grown: "prefix (box (fst w)) (box w0)" and msgs: "msgs = star_range (u + 1) (box w0)"
    using server unfolding imap_server_def by blast+
  note shape = run_batch_shape [OF run u, of msgs w0] run_batch_results [OF run u, of msgs w0]
  show ?thesis
  proof (cases "pending u (box w0) = []")
    case True
    moreover have "\<exists>u'. last_seen w' = Some u' \<and> u \<le> u'"
      using shape(2) f caps fold_max_ge by auto
    ultimately show ?thesis using grown by (intro exI [of _ w0]) (simp add: unfailed_def)
  next
    case False
    then have q: "pending u (box w0) = msgs" using msgs star_range_pending(1) by simp
    from shape(1) f caps obtain pre rest rs1 w1 how ts where
      split: "take (unat (mp_batch_size self)) msgs = pre @ rest"
      and h: "handled self (mp_current self w0) pre (w0, snd w) rs1 w1"
      and e: "ends self (mp_current self w0) rest w1 how (Inr ts) w'" and rs: "rs = rs1 @ ts"
      by (auto simp: map_ok_eq)
    note hl = handled_length [OF h] and hr = handled_results [OF h] and E = ends_Inr [OF e]
    let ?later = "drop (unat (mp_batch_size self)) msgs"
    have all: "msgs = pre @ rest @ ?later" using take_split [OF split] .
    have u0: "last_seen (w0, snd w) = Some u" using u by (simp add: last_seen_def)
    then have "queue box (w0, snd w) = msgs" using q by (simp add: queue_Some)
    then have "prefix (pre @ (rest @ ?later)) (queue box (w0, snd w))" using all by simp
    from handled_pops [OF server quiet h u0 this] have "prefix (rest @ ?later) (queue box w1)" .
    from ends_keeps_queue [OF server quiet e this handled_last_seen [OF h u0]]
    have "prefix (unfailed ts (rest @ ?later)) (unfailed ts (queue box w'))" .
    moreover have "unfailed rs = unfailed ts"
      using failed_uids_Ok [of rs1] hr by (simp add: rs failed_uids_append unfailed_def fun_eq_iff)
    moreover have "drop (ok_count rs) msgs = rest @ ?later"
      using ok_count_all [of rs1 ts] hr hl E(4) all by (metis add.right_neutral append_eq_conv_conj rs)
    moreover have "map pr_uid rs = map msg_uid (take (length rs) msgs)"
      and "(\<forall>r \<in> set rs. pr_status r = Ok) \<Longrightarrow> length rs = min (unat (mp_batch_size self)) (length msgs)"
      and "last_seen w' = Some (fold_max u (take (ok_count rs) msgs))"
      using shape(2) f caps by (simp_all add: take_map)
    moreover have "\<forall>m \<in> set (take k msgs). msg_uid m \<le> fold_max u (take k msgs)" for k
      by (auto simp: le_fold_max)
    ultimately show ?thesis
      using grown q fold_max_ge by (intro exI [of _ w0]) (auto simp: failed_uids_def)
  qed
qed

section \<open>When nothing fails\<close>

text \<open>
  \<open>n\<close> messages have been taken from the front of the queue: the record has moved past them, and what
  is queued now are the others, and mail that has arrived.
\<close>

definition taken :: "('w \<Rightarrow> MessageContext list) \<Rightarrow> nat \<Rightarrow> 'w world \<Rightarrow> 'w world \<Rightarrow> bool" where
  "taken box n w w' \<longleftrightarrow>
     (\<exists>u u'. last_seen w = Some u \<and> last_seen w' = Some u' \<and> u \<le> u' \<and>
        (\<forall>m \<in> set (take n (queue box w)). msg_uid m \<le> u')) \<and>
     prefix (drop n (queue box w)) (queue box w')"

lemma prefix_drop: "prefix xs ys \<Longrightarrow> prefix (drop n xs) (drop n ys)"
  by (auto simp: prefix_def)

lemma prefix_take_set: "prefix xs ys \<Longrightarrow> set (take n xs) \<subseteq> set (take n ys)"
  by (auto simp: prefix_def)

lemma taken_trans:
  assumes "taken box n w w1" and "taken box k w1 w2"
  shows "taken box (n + k) w w2"
proof -
  have "set (take k (drop n (queue box w))) \<subseteq> set (take k (queue box w1))"
    using assms(1) by (intro prefix_take_set) (simp add: taken_def)
  moreover have "prefix (drop k (drop n (queue box w))) (drop k (queue box w1))"
    using assms(1) by (intro prefix_drop) (simp add: taken_def)
  then have "prefix (drop (n + k) (queue box w)) (queue box w2)"
    using assms(2) by (auto simp: taken_def add.commute intro: prefix_order.trans)
  ultimately show ?thesis
    using assms by (fastforce simp: taken_def take_add)
qed

lemma taken_0:
  "last_seen w = Some u \<Longrightarrow> last_seen w' = Some u \<Longrightarrow> prefix (box (fst w)) (box (fst w')) \<Longrightarrow> taken box 0 w w'"
  by (simp add: taken_def queue_def prefix_pending)

lemma taken_seen: "taken box n w w' \<Longrightarrow> \<exists>u. last_seen w' = Some u"
  by (auto simp: taken_def)

text \<open>
  A healthy system, as long as the world is \<open>good\<close>, which the operations keep it: for the production
  client, while its session is up. Fetching and IDLE succeed; every message in the mailbox can be
  evaluated with the script in use, and its actions succeed; every state can be serialized.
\<close>

definition healthy ::
    "('w, 's) SessionManager \<Rightarrow> Capabilities \<Rightarrow> ('w \<Rightarrow> MessageContext list) \<Rightarrow> ('w \<Rightarrow> bool) \<Rightarrow> bool" where
  "healthy self caps box good \<longleftrightarrow>
     (\<forall>n w. good w \<longrightarrow>
        (\<exists>msgs w'. fetch_uid_range (sm_imap self) (sm_mailbox self) n None w = (Inr msgs, w') \<and> good w')) \<and>
     (\<forall>w0 m. good w0 \<longrightarrow> m \<in> set (box w0) \<longrightarrow>
        (\<exists>as. evaluate (sm_engine self) (sm_current self w0) m = Inr as \<and>
          (\<forall>w. good w \<longrightarrow> (\<exists>w'. execute (executor (processor self caps)) m as w = (Inr (), w') \<and> good w')))) \<and>
     (\<forall>s. \<exists>b. to_vec (sm_serde self) s = Inr b) \<and>
     (\<forall>d w. good w \<longrightarrow>
        (\<exists>ev w'. idle (sm_imap self) d w = (Inr ev, w') \<and> ev \<noteq> Disconnected \<and> prefix (box w) (box w') \<and> good w'))"

text \<open>The world is good, and no file call will fail.\<close>

definition no_faults :: "('w \<Rightarrow> bool) \<Rightarrow> 'w world \<Rightarrow> bool" where
  "no_faults good w \<longleftrightarrow> good (fst w) \<and> (\<forall>n. fault (snd (snd w)) n = None)"

lemma healthy_loop:
  assumes "healthy self caps box good" and "good w00" and "script = sm_current self w00"
  shows "no_faults good w \<Longrightarrow> set msgs \<subseteq> set (box w00) \<Longrightarrow>
    \<exists>rs w'. process_loop (processor self caps) script msgs results w = (Inr (results @ rs), w') \<and>
      failed_uids rs = {} \<and> no_faults good w'"
proof (induction msgs arbitrary: results w)
  case Nil
  then show ?case by (intro exI [of _ "[]"] exI [of _ w]) (simp add: failed_uids_def)
next
  case (Cons m msgs)
  obtain w0 self0 d where w: "w = (w0, self0, d)" by (rule prod_cases3)
  have m: "m \<in> set (box w00)" and ms: "set msgs \<subseteq> set (box w00)" using Cons.prems(2) by auto
  from assms m obtain as where ev: "evaluate (sm_engine self) script m = Inr as"
    and exs: "\<forall>w. good w \<longrightarrow> (\<exists>w'. execute (executor (processor self caps)) m as w = (Inr (), w') \<and> good w')"
    unfolding healthy_def by blast
  from exs Cons.prems(1) obtain w1 where
    ex: "execute (executor (processor self caps)) m as w0 = (Inr (), w1)" and g: "good w1"
    by (auto simp: w no_faults_def)
  obtain b where "to_vec (sm_serde self) (advance_to (msg_uid m) (ss_state self0)) = Inr b"
    using assms unfolding healthy_def by blast
  with update_no_fault [of d "sm_serde self"] Cons.prems(1) obtain st where
    up: "update (sm_serde self) (advance_to (msg_uid m)) (self0, d) = (Inr (), st)" and "no_faults good (w1, st)"
    using g by (force simp: no_faults_def w)
  from Cons.IH [OF this(2) ms] obtain rs w' where
    "process_loop (processor self caps) script msgs
       (results @ [\<lparr>pr_uid = msg_uid m, pr_actions = as, pr_status = Ok\<rparr>]) (w1, st) =
       (Inr ((results @ [\<lparr>pr_uid = msg_uid m, pr_actions = as, pr_status = Ok\<rparr>]) @ rs), w')"
    and "failed_uids rs = {}" and "no_faults good w'" by blast
  with ev ex up w show ?case
    by (intro exI [of _ "\<lparr>pr_uid = msg_uid m, pr_actions = as, pr_status = Ok\<rparr> # rs"] exI [of _ w'])
       (auto simp: processor_def failed_uids_def)
qed

text \<open>One batch, one turn of the session loop, and the loop, on a healthy system.\<close>

lemma healthy_run_batch:
  assumes "healthy self caps box good" and "imap_server (sm_imap self) (sm_mailbox self) box"
    and "mail_only_arrives (processor self caps) box" and "\<not> cap_condstore caps"
    and "no_faults good w" and "last_seen w = Some u"
  shows "\<exists>rs w'. run_batch (processor self caps) w = (Inr rs, w') \<and> failed_uids rs = {} \<and> no_faults good w' \<and>
           taken box (unat (sm_batch_size self)) w w'"
proof -
  let ?p = "processor self caps" and ?n = "unat (sm_batch_size self)"
  have "good (fst w)" using assms(5) by (simp add: no_faults_def)
  with assms(1) obtain msgs w0 where
    f: "fetch_uid_range (sm_imap self) (sm_mailbox self) (u + 1) None (fst w) = (Inr msgs, w0)" and g: "good w0"
    unfolding healthy_def by blast
  have msgs: "msgs = star_range (u + 1) (box w0)" using assms(2) f by (auto simp: imap_server_def)
  have "no_faults good (w0, snd w)" using assms(5) g by (simp add: no_faults_def)
  moreover have "set (take ?n msgs) \<subseteq> set (box w0)"
    unfolding msgs star_range_def by (auto dest!: in_set_takeD)
  moreover have "mp_current ?p w0 = sm_current self w0" by (simp add: processor_def)
  ultimately obtain rs w' where
    "process_loop ?p (mp_current ?p w0) (take ?n msgs) [] (w0, snd w) = (Inr rs, w')"
    and ok: "failed_uids rs = {}" and nf: "no_faults good w'"
    using healthy_loop [OF assms(1) g, of "mp_current ?p w0" "(w0, snd w)" "take ?n msgs" "[]"] by auto
  then have run: "run_batch ?p w = (Inr rs, w')"
    using f assms(4,6) by (simp add: run_batch_def processor_def)
  have "imap_server (mp_imap ?p) (mp_mailbox ?p) box" and "\<not> cap_condstore (mp_caps ?p)"
    using assms(2,4) by (simp_all add: processor_def)
  from batch_queue [OF this(1) assms(3) this(2) assms(6) run] obtain w1 u' where
    grown: "prefix (box (fst w)) (box w1)"
    and after: "prefix (unfailed rs (drop (ok_count rs) (pending u (box w1)))) (unfailed rs (queue box w'))"
    and len: "pending u (box w1) = [] \<or> length rs = min ?n (length (pending u (box w1)))"
    and u': "last_seen w' = Some u'" "u \<le> u'" "\<forall>m \<in> set (take (ok_count rs) (pending u (box w1))). msg_uid m \<le> u'"
    using ok by (auto simp: processor_def)
  have "\<forall>r \<in> set rs. pr_status r = Ok" using ok by (auto simp: failed_uids_def)
  then have cnt: "ok_count rs = length rs"
    unfolding ok_count_def by (subst takeWhile_eq_all_conv [THEN iffD2]) simp_all
  have unf: "unfailed rs ms = ms" for ms by (simp add: unfailed_def ok)
  have q: "prefix (queue box w) (pending u (box w1))"
    using grown assms(6) by (simp add: queue_Some prefix_pending)
  have same: "take (ok_count rs) (pending u (box w1)) = take ?n (pending u (box w1)) \<and>
      drop (ok_count rs) (pending u (box w1)) = drop ?n (pending u (box w1))"
    using len by (auto simp: cnt min_def)
  have "prefix (drop ?n (queue box w)) (queue box w')"
    using prefix_drop [OF q, of ?n] after same by (simp add: unf)
  moreover have "\<forall>m \<in> set (take ?n (queue box w)). msg_uid m \<le> u'"
    using prefix_take_set [OF q, of ?n] u'(3) same by auto
  ultimately have "taken box ?n w w'" using assms(6) u' by (simp add: taken_def)
  with run nf ok show ?thesis by blast
qed

lemma healthy_batch:
  assumes "healthy self caps box good" and "imap_server (sm_imap self) (sm_mailbox self) box"
    and "mail_only_arrives (processor self caps) box" and "\<not> cap_condstore caps"
    and "no_faults good w" and "last_seen w = Some u"
  shows "\<exists>w'. process_pending self caps w = (Inr (), w') \<and> no_faults good w' \<and>
           taken box (unat (sm_batch_size self)) w w'"
  using healthy_run_batch [OF assms] by (auto simp: process_pending_def bind_io_def)

lemma healthy_turn:
  assumes "healthy self caps box good" and "imap_server (sm_imap self) (sm_mailbox self) box"
    and "mail_only_arrives (processor self caps) box" and "\<not> cap_condstore caps"
    and "no_faults good w" and "last_seen w = Some u"
  shows "\<exists>w'. idle_turn self caps w = (Inr (), w') \<and> no_faults good w' \<and> taken box (unat (sm_batch_size self)) w w'"
proof -
  obtain ev w1 where "idle (sm_imap self) (sm_idle_timeout self) (fst w) = (Inr ev, w1)"
    and ev: "ev \<noteq> Disconnected" and grown: "prefix (box (fst w)) (box w1)" and g: "good w1"
    using assms(1,5) unfolding healthy_def no_faults_def by blast
  then have idle: "on_imap (idle (sm_imap self) (sm_idle_timeout self)) w = (Inr ev, (w1, snd w))"
    by (simp add: on_imap_def)
  have "no_faults good (w1, snd w)" and seen: "last_seen (w1, snd w) = Some u"
    using assms(5,6) g by (simp_all add: no_faults_def last_seen_def)
  have t0: "taken box 0 w (w1, snd w)" using taken_0 [OF assms(6) seen] grown by simp
  from healthy_batch [OF assms(1-4) \<open>no_faults good (w1, snd w)\<close> seen] obtain w' where
    "process_pending self caps (w1, snd w) = (Inr (), w')" and "no_faults good w'"
    and t: "taken box (unat (sm_batch_size self)) (w1, snd w) w'" by blast
  moreover have "taken box (unat (sm_batch_size self)) w w'" using taken_trans [OF t0 t] by simp
  ultimately show ?thesis using idle ev by (cases ev) (auto simp: idle_turn_def)
qed

lemma healthy_session_loop:
  assumes "healthy self caps box good" and "imap_server (sm_imap self) (sm_mailbox self) box"
    and "mail_only_arrives (processor self caps) box" and "\<not> cap_condstore caps"
  shows "no_faults good w \<Longrightarrow> last_seen w = Some u \<Longrightarrow>
    \<exists>w'. session_loop self caps (replicate k False) w = ((None, []), w') \<and>
         taken box (k * unat (sm_batch_size self)) w w'"
proof (induction k arbitrary: w u)
  case 0
  then show ?case by (auto intro: taken_0)
next
  case (Suc k)
  from healthy_turn [OF assms Suc.prems] obtain w1 where
    turn: "idle_turn self caps w = (Inr (), w1)" and "no_faults good w1"
    and t: "taken box (unat (sm_batch_size self)) w w1" by blast
  with Suc.IH taken_seen [OF t] obtain w' where
    "session_loop self caps (replicate k False) w1 = ((None, []), w')"
    and "taken box (k * unat (sm_batch_size self)) w1 w'" by blast
  with turn taken_trans [OF t] show ?case by auto
qed

lemma healthy_start:
  assumes "healthy self caps box good" and "imap_server (sm_imap self) (sm_mailbox self) box"
    and "mail_only_arrives (processor self caps) box" and "\<not> cap_condstore caps"
    and "no_faults good w" and "last_seen w = Some u"
    and "capabilities (sm_imap self) (fst w) = (Inr caps, w1)" and "cap_idle caps"
    and "select (sm_imap self) (sm_mailbox self) w1 = (Inr status, w2)"
    and "prefix (box (fst w)) (box w1)" and "prefix (box w1) (box w2)"
    and "st_uidvalidity (persisted w) \<in> {None, Some (mb_uidvalidity status)}" and "good w2"
  shows "\<exists>w'. session_start self w = (Inr caps, w') \<and> no_faults good w' \<and> taken box (unat (sm_batch_size self)) w w'"
proof -
  let ?f = "record_select (sm_mailbox self) status"
  obtain self0 d where st: "snd w = (self0, d)" by (rule prod.exhaust)
  obtain b where "to_vec (sm_serde self) (?f (ss_state self0)) = Inr b"
    using assms(1) unfolding healthy_def by blast
  with update_no_fault [of d "sm_serde self" ?f self0] assms(5) st obtain st' where
    up: "update (sm_serde self) ?f (snd w) = (Inr (), st')" and nf: "no_faults good (w2, st')"
    using assms(13) by (force simp: no_faults_def)
  have kept: "ss_state (fst st') = ?f (persisted w)"
    using store.get_upd_Ok [OF up] by (simp add: persisted_def)
  then have seen: "last_seen (w2, st') = Some u"
    using assms(6) by (simp add: last_seen_def persisted_def)
  have chk: "check_uidvalidity self status (w2, snd w) = (Inr (), (w2, st'))"
    using assms(12) up by (auto simp: check_uidvalidity_def persisted_def on_store_def)
  have seed: "seed_last_seen self status (w2, st') = (Inr (), (w2, st'))"
    using seen by (simp add: seed_last_seen_def last_seen_def persisted_def)
  from healthy_batch [OF assms(1-4) nf seen] obtain w' where
    batch: "process_pending self caps (w2, st') = (Inr (), w')" "no_faults good w'"
    and t: "taken box (unat (sm_batch_size self)) (w2, st') w'" by blast
  have "session_start self w = (Inr caps, w')"
    using assms(7-9) chk seed batch(1) by (simp add: session_start_def on_imap_def bind_io_def)
  moreover have "taken box (0 + unat (sm_batch_size self)) w w'"
    using prefix_order.trans [OF assms(10,11)] by (intro taken_trans [OF taken_0 [OF assms(6) seen] t]) simp
  ultimately show ?thesis using batch(2) by simp
qed

lemma healthy_session_run:
  assumes "healthy self caps box good" and "imap_server (sm_imap self) (sm_mailbox self) box"
    and "mail_only_arrives (processor self caps) box" and "\<not> cap_condstore caps"
    and "no_faults good w" and "last_seen w = Some u"
    and "capabilities (sm_imap self) (fst w) = (Inr caps, w1)" and "cap_idle caps"
    and "select (sm_imap self) (sm_mailbox self) w1 = (Inr status, w2)"
    and "prefix (box (fst w)) (box w1)" and "prefix (box w1) (box w2)"
    and "st_uidvalidity (persisted w) \<in> {None, Some (mb_uidvalidity status)}" and "good w2"
  shows "\<exists>w'. session_run self (replicate k False) w = ((None, []), w') \<and>
           taken box (Suc k * unat (sm_batch_size self)) w w'"
proof -
  from healthy_start [OF assms] obtain w3 where start: "session_start self w = (Inr caps, w3)"
    and nf: "no_faults good w3" and t: "taken box (unat (sm_batch_size self)) w w3" by blast
  from taken_seen [OF t] obtain u3 where "last_seen w3 = Some u3" ..
  from healthy_session_loop [OF assms(1-4) nf this, of k] obtain w' where
    "session_loop self caps (replicate k False) w3 = ((None, []), w')"
    and "taken box (k * unat (sm_batch_size self)) w3 w'" by blast
  with start taken_trans [OF t] show ?thesis by (auto simp: session_run_def)
qed

section \<open>Batches in a row\<close>

fun batches :: "nat \<Rightarrow> ('w, 's) MessageProcessor \<Rightarrow> ('w world, CoreError, ProcessingResult list) io" where
  "batches 0 self = ret_io []"
| "batches (Suc k) self =
     bind_io (run_batch self) (\<lambda>rs. bind_io (batches k self) (\<lambda>rest. ret_io (rs @ rest)))"

lemma batches_take:
  assumes "imap_server (mp_imap self) (mp_mailbox self) box" and "mail_only_arrives self box"
    and "\<not> cap_condstore (mp_caps self)" and "0 < mp_batch_size self"
  shows "last_seen w = Some u \<Longrightarrow> batches k self w = (Inr rs, w') \<Longrightarrow> failed_uids rs = {} \<Longrightarrow>
    k * unat (mp_batch_size self) \<le> length (queue box w) \<Longrightarrow>
    map pr_uid rs = map msg_uid (take (k * unat (mp_batch_size self)) (queue box w))"
proof (induction k arbitrary: w u rs)
  case (Suc k)
  let ?n = "unat (mp_batch_size self)"
  from Suc.prems(2) obtain rs1 rs2 w1 where run: "run_batch self w = (Inr rs1, w1)"
    and rest: "batches k self w1 = (Inr rs2, w')" and rs: "rs = rs1 @ rs2"
    by (auto simp: bind_io_eq_Ok)
  from batch_queue [OF assms(1-3) Suc.prems(1) run] obtain w0 u1 where
    grown: "prefix (box (fst w)) (box w0)"
    and uids: "pending u (box w0) = [] \<or> map pr_uid rs1 = map msg_uid (take (length rs1) (pending u (box w0)))"
    and after: "prefix (unfailed rs1 (drop (ok_count rs1) (pending u (box w0)))) (unfailed rs1 (queue box w1))"
    and len: "pending u (box w0) = [] \<or> failed_uids rs1 \<noteq> {} \<or> length rs1 = min ?n (length (pending u (box w0)))"
    and u1: "last_seen w1 = Some u1"
    by blast
  have ok: "failed_uids rs1 = {}" "failed_uids rs2 = {}" using Suc.prems(3) by (simp_all add: rs failed_uids_append)
  have q: "prefix (queue box w) (pending u (box w0))"
    using grown Suc.prems(1) by (simp add: queue_Some prefix_pending)
  have n: "0 < ?n" using assms(4) by (simp add: word_less_nat_alt)
  have long: "?n \<le> length (queue box w)" using Suc.prems(4) by simp
  also have "\<dots> \<le> length (pending u (box w0))" using q by (rule prefix_length_le)
  finally have len1: "length rs1 = ?n" and ne: "pending u (box w0) \<noteq> []" using len ok n by auto
  have "\<forall>r \<in> set rs1. pr_status r = Ok" using ok(1) by (auto simp: failed_uids_def)
  then have "ok_count rs1 = ?n"
    using len1 unfolding ok_count_def by (subst takeWhile_eq_all_conv [THEN iffD2]) simp_all
  then have "prefix (drop ?n (pending u (box w0))) (queue box w1)" using after ok by (simp add: unfailed_def)
  with prefix_drop [OF q, of ?n] have next_q: "prefix (drop ?n (queue box w)) (queue box w1)"
    by (rule prefix_order.trans)
  then have "k * ?n \<le> length (queue box w1)"
    using prefix_length_le [OF next_q] Suc.prems(4) by simp
  from Suc.IH [OF u1 rest ok(2) this]
  have "map pr_uid rs2 = map msg_uid (take (k * ?n) (queue box w1))" .
  also have "take (k * ?n) (queue box w1) = take (k * ?n) (drop ?n (queue box w))"
    using next_q Suc.prems(4) by (auto simp: prefix_def)
  finally have r2: "map pr_uid rs2 = map msg_uid (take (k * ?n) (drop ?n (queue box w)))" .
  have "take ?n (pending u (box w0)) = take ?n (queue box w)" using q long by (auto simp: prefix_def)
  with uids ne len1 have "map pr_uid rs1 = map msg_uid (take ?n (queue box w))" by simp
  with r2 show ?case by (simp add: rs take_add)
qed (simp add: failed_uids_def)

lemma healthy_batches:
  assumes "healthy self caps box good" and "imap_server (sm_imap self) (sm_mailbox self) box"
    and "mail_only_arrives (processor self caps) box" and "\<not> cap_condstore caps"
  shows "no_faults good w \<Longrightarrow> last_seen w = Some u \<Longrightarrow>
    \<exists>rs w'. batches k (processor self caps) w = (Inr rs, w') \<and> failed_uids rs = {}"
proof (induction k arbitrary: w u)
  case 0
  then show ?case by (intro exI [of _ "[]"] exI [of _ w]) (simp add: failed_uids_def)
next
  case (Suc k)
  from healthy_run_batch [OF assms Suc.prems] obtain rs w1 where
    run: "run_batch (processor self caps) w = (Inr rs, w1)" "failed_uids rs = {}" "no_faults good w1"
    and t: "taken box (unat (sm_batch_size self)) w w1" by blast
  with Suc.IH taken_seen [OF t] obtain rs2 w' where
    "batches k (processor self caps) w1 = (Inr rs2, w')" and "failed_uids rs2 = {}" by blast
  with run show ?case
    by (intro exI [of _ "rs @ rs2"] exI [of _ w']) (simp add: bind_io_def failed_uids_append)
qed

section \<open>A small server\<close>

text \<open>
  A server to evaluate the properties on: its world is the list of the UIDs in the mailbox, it has
  at most the messages 5, 8 and 9, and it does at once what it is told.
\<close>

definition sample_box :: "u32 list \<Rightarrow> MessageContext list" where
  "sample_box w = map sample_msg (filter (\<lambda>u. u \<in> set w) [5, 8, 9])"

definition sample_caps :: Capabilities where
  "sample_caps = (fk_caps new_FakeImap)\<lparr>cap_condstore := False\<rparr>"

definition sample_server :: "u32 list ImapClient" where
  "sample_server =
     \<lparr>capabilities = (\<lambda>w. (Inr sample_caps, w)),
      select = (\<lambda>_ w. (Inr sample_status, w)),
      fetch_uid_range = (\<lambda>_ n _ w. (Inr (star_range n (sample_box w)), w)),
      uid_move = (\<lambda>u _ w. (Inr (), filter (\<lambda>v. v \<noteq> u) w)),
      uid_copy = (\<lambda>_ _. ret_io ()),
      uid_store_flags = (\<lambda>_ _ _. ret_io ()),
      uid_expunge = (\<lambda>us w. (Inr (), filter (\<lambda>v. v \<notin> set us) w)),
      uid_create_mailbox = (\<lambda>_. ret_io ()),
      idle = (\<lambda>_ w. (Inr Interrupted, w))\<rparr>"

definition sample_manager :: "(u32 list, string) SessionManager" where
  "sample_manager =
     \<lparr>sm_engine = sample_engine, sm_current = (\<lambda>_. ''keep;''), sm_imap = sample_server, sm_smtp = None,
      sm_mailbox = ''INBOX'', sm_idle_timeout = IDLE_TIMEOUT, sm_batch_size = 2,
      sm_stamp = (\<lambda>w. (([], []), w)), sm_serde = full_serde\<rparr>"

definition sample_backlog :: "u32 list world" where
  "sample_backlog = ([5, 8, 9], sample_store 4, sample_disk)"

lemma sample_backlog_facts [simp]:
  "last_seen sample_backlog = Some 4" "no_faults (\<lambda>_. True) sample_backlog" "fst sample_backlog = [5, 8, 9]"
  "queue sample_box sample_backlog = map sample_msg [5, 8, 9]"
  "st_uidvalidity (persisted sample_backlog) = None"
  by (simp_all add: sample_backlog_def last_seen_def sample_store_def no_faults_def sample_disk_def queue_def
      pending_def sample_box_def sample_msg_def persisted_def default_State_def)

lemma sample_server_ok: "imap_server sample_server mailbox sample_box"
proof -
  have "prefix (others u (sample_box w)) (others u (sample_box (snd (run_op sample_server op w))))"
    if "about u op" for u op w
    using that by (cases op) (auto simp: sample_server_def sample_box_def others_def sample_msg_def)
  then show ?thesis
    by (simp add: imap_server_def) (simp add: sample_server_def sample_box_def sample_msg_def)
qed

lemma sample_manager_ok:
  "imap_server (sm_imap sample_manager) (sm_mailbox sample_manager) sample_box"
  "mail_only_arrives (processor sample_manager caps) sample_box"
  "healthy sample_manager caps sample_box (\<lambda>_. True)" "\<not> cap_condstore sample_caps"
  using sample_server_ok
  by (simp_all add: mail_only_arrives_def processor_def healthy_def sample_manager_def sample_server_def
      sample_engine_def full_serde_def execute_def bind_io_def sample_caps_def)

section \<open>UIDs are given once\<close>

text \<open>
  Two more documented laws of IMAP. A UID is never given again: \<open>nxt\<close> stands for UIDNEXT, which is
  above all UIDs in use and never goes back, and what a call adds to the mailbox has a UID from the
  UIDNEXT before the call on. And a MOVE that succeeds takes the message out of the mailbox.
\<close>

definition uids :: "MessageContext list \<Rightarrow> u32 set" where
  "uids ms = msg_uid ` set ms"

definition uids_grow :: "('w \<Rightarrow> MessageContext list) \<Rightarrow> ('w \<Rightarrow> nat) \<Rightarrow> 'w \<Rightarrow> 'w \<Rightarrow> bool" where
  "uids_grow box nxt w w' \<longleftrightarrow>
     nxt w \<le> nxt w' \<and> (\<forall>u \<in> uids (box w'). u \<in> uids (box w) \<or> nxt w \<le> unat u)"

definition assigns_fresh_uids ::
    "('w, 's) MessageProcessor \<Rightarrow> ('w \<Rightarrow> MessageContext list) \<Rightarrow> ('w \<Rightarrow> nat) \<Rightarrow> bool" where
  "assigns_fresh_uids self box nxt \<longleftrightarrow>
     (\<forall>w. \<forall>u \<in> uids (box w). unat u < nxt w) \<and>
     (\<forall>mailbox n since w. uids_grow box nxt w (snd (fetch_uid_range (mp_imap self) mailbox n since w))) \<and>
     (\<forall>op w. uids_grow box nxt w (snd (run_op (mp_imap self) op w))) \<and>
     (\<forall>s m w. mp_smtp self = Some s \<longrightarrow> uids_grow box nxt w (snd (send s m w))) \<and>
     (\<forall>w. uids_grow box nxt w (snd (mp_stamp self w)))"

definition move_removes :: "'w ImapClient \<Rightarrow> ('w \<Rightarrow> MessageContext list) \<Rightarrow> bool" where
  "move_removes C box \<longleftrightarrow>
     (\<forall>u target w w'. uid_move C u target w = (Inr (), w') \<longrightarrow> u \<notin> uids (box w'))"

lemma uids_grow_refl [intro]: "uids_grow box nxt w w"
  by (simp add: uids_grow_def)

lemma uids_grow_trans: "uids_grow box nxt w w' \<Longrightarrow> uids_grow box nxt w' w'' \<Longrightarrow> uids_grow box nxt w w''"
  unfolding uids_grow_def by (meson le_trans)

lemma gone_for_good:
  "uids_grow box nxt w w' \<Longrightarrow> u \<notin> uids (box w) \<Longrightarrow> unat u < nxt w \<Longrightarrow> u \<notin> uids (box w') \<and> unat u < nxt w'"
  unfolding uids_grow_def by (meson le_less_trans leD order_less_le_trans)

lemma execute_grows:
  assumes "assigns_fresh_uids self box nxt"
  shows "uids_grow box nxt w (snd (execute (executor self) m actions w))"
proof -
  have frame: "imap_frame (mp_imap self) (uids_grow box nxt) (msg_uid m)"
    using assms by unfold_locales (auto simp: assigns_fresh_uids_def intro: uids_grow_trans)
  show ?thesis
    using imap_frame.execute_respects [OF frame, of "executor self" m w actions] assms
    by (auto simp: executor_def assigns_fresh_uids_def)
qed

lemma process_loop_grows:
  assumes "assigns_fresh_uids self box nxt"
  shows "uids_grow box nxt (fst w) (fst (snd (process_loop self script msgs results w)))"
proof (induction msgs arbitrary: results w)
  case (Cons m msgs)
  have step: "uids_grow box nxt (fst w) w'" if "execute (executor self) m actions (fst w) = (r, w')" for actions r w'
    using execute_grows [OF assms, of "fst w" m actions] that by simp
  show ?case
    using Cons.IH by (fastforce dest: step intro: uids_grow_trans split: sum.split prod.split)
qed auto

lemma batch_grows:
  assumes "assigns_fresh_uids self box nxt"
  shows "uids_grow box nxt (fst w) (fst (snd (run_batch self w)))"
proof (cases "last_seen w")
  case (Some u)
  let ?since = "if cap_condstore (mp_caps self) then st_highestmodseq (ss_state (fst (snd w))) else None"
  obtain r w0 where f: "fetch_uid_range (mp_imap self) (mp_mailbox self) (u + 1) ?since (fst w) = (r, w0)"
    by (rule prod.exhaust)
  then have "uids_grow box nxt (fst w) w0" using assms by (metis assigns_fresh_uids_def snd_conv)
  moreover have "uids_grow box nxt w0 (fst (snd (process_loop self script msgs [] (w0, snd w))))" for script msgs
    using process_loop_grows [OF assms, of "(w0, snd w)"] by simp
  ultimately show ?thesis
    using Some f by (auto simp: run_batch_def Let_def split: sum.split intro: uids_grow_trans)
qed (auto simp: run_batch_def)

abbreviation after_batches :: "nat \<Rightarrow> ('w, 's) MessageProcessor \<Rightarrow> 'w world \<Rightarrow> 'w world" where
  "after_batches k self \<equiv> (\<lambda>w. snd (run_batch self w)) ^^ k"

lemma batches_grow:
  assumes "assigns_fresh_uids self box nxt"
  shows "uids_grow box nxt (fst w) (fst (after_batches k self w))"
  by (induction k) (auto intro: uids_grow_trans batch_grows [OF assms])

section \<open>Properties\<close>



text \<open>
  C15. Batches in a row handle every message of the backlog once, in order. On a server that behaves
  as IMAP says, without CONDSTORE, where mail only arrives, and with a positive batch size: while the
  backlog lasts, the results of \<open>k\<close> batches without a failure are about its first \<open>k * batch_size\<close>
  messages, each of them exactly once, whatever new mail arrives in between.
\<close>

theorem batches_exactly_once:
  assumes "imap_server (mp_imap self) (mp_mailbox self) box" and "mail_only_arrives self box"
    and "\<not> cap_condstore (mp_caps self)" and "0 < mp_batch_size self" and "last_seen w = Some u"
    and "batches k self w = (Inr rs, w')" and "failed_uids rs = {}"
    and "k * unat (mp_batch_size self) \<le> length (queue box w)"
  shows "map pr_uid rs = map msg_uid (take (k * unat (mp_batch_size self)) (queue box w)) \<and>
         distinct (map pr_uid rs)"
proof -
  note uids = batches_take [OF assms]
  have "sorted_wrt (<) (map msg_uid (queue box w))"
    using assms(1) by (simp add: queue_def imap_server_def sorted_pending)
  then have "distinct (map msg_uid (queue box w))" by (simp add: strict_sorted_iff)
  then show ?thesis by (simp add: uids take_map [symmetric] distinct_take)
qed

theorem batches_exactly_once_witness:
  "\<exists>rs w'. batches 1 (processor sample_manager sample_caps) sample_backlog = (Inr rs, w') \<and> map pr_uid rs = [5, 8]"
proof -
  let ?p = "processor sample_manager sample_caps"
  obtain rs w' where run: "batches 1 ?p sample_backlog = (Inr rs, w')" "failed_uids rs = {}"
    using healthy_batches [OF sample_manager_ok(3,1,2,4)] sample_backlog_facts by blast
  have "imap_server (mp_imap ?p) (mp_mailbox ?p) sample_box"
    using sample_manager_ok(1) by (simp add: processor_def)
  moreover have p: "\<not> cap_condstore (mp_caps ?p)" "mp_batch_size ?p = 2"
    by (simp_all add: processor_def sample_manager_def sample_caps_def)
  ultimately have "map pr_uid rs = map msg_uid (take (1 * unat (mp_batch_size ?p)) (queue sample_box sample_backlog))"
    using batches_exactly_once [OF _ sample_manager_ok(2) _ _ sample_backlog_facts(1) run] by simp
  then have "map pr_uid rs = [5, 8]" unfolding p by (simp add: sample_msg_def)
  with run(1) show ?thesis by (intro exI [of _ rs] exI [of _ w'] conjI)
qed

text \<open>
  C5. A backlog is drained. Resume a session on a mailbox whose UIDVALIDITY is the recorded one (or
  none is recorded), on a server that behaves as IMAP says, offers IDLE and has no CONDSTORE, where
  SELECT succeeds, mail only arrives, and as long as the session is up commands, IDLE, scripts,
  actions and writes succeed (\<open>healthy\<close>): as soon as the session has gone through enough IDLE events
  for its batches to add up to the backlog, the one at start-up included, the record has moved past
  every message that was waiting, even if mail keeps arriving.
\<close>

theorem backlog_drained:
  assumes "healthy self caps box good" and "imap_server (sm_imap self) (sm_mailbox self) box"
    and "mail_only_arrives (processor self caps) box" and "\<not> cap_condstore caps"
    and "no_faults good w" and "last_seen w = Some u"
    and "capabilities (sm_imap self) (fst w) = (Inr caps, w1)" and "cap_idle caps"
    and "select (sm_imap self) (sm_mailbox self) w1 = (Inr status, w2)"
    and "prefix (box (fst w)) (box w1)" and "prefix (box w1) (box w2)"
    and "st_uidvalidity (persisted w) \<in> {None, Some (mb_uidvalidity status)}" and "good w2"
    and "length (queue box w) \<le> Suc k * unat (sm_batch_size self)"
  shows "\<exists>w' u'. session_run self (replicate k False) w = ((None, []), w') \<and>
           last_seen w' = Some u' \<and> list_all (\<lambda>m. msg_uid m \<le> u') (queue box w)"
proof -
  from healthy_session_run [OF assms(1-13), of k] obtain w' where
    run: "session_run self (replicate k False) w = ((None, []), w')"
    and t: "taken box (Suc k * unat (sm_batch_size self)) w w'" by blast
  have "take (Suc k * unat (sm_batch_size self)) (queue box w) = queue box w" using assms(14) by simp
  with t run show ?thesis by (auto simp: taken_def list_all_iff)
qed

text \<open>
  A session with the production client and the production engine, over a small crate: its mailbox
  is a list of UIDs, it understands the very texts the client sends, and its session stays up.
\<close>

definition box_fetch :: "u32 \<Rightarrow> Fetch" where
  "box_fetch u = sample_fetch\<lparr>fe_uid := Some u\<rparr>"

definition in_range :: "string \<Rightarrow> u32 \<Rightarrow> bool" where
  "in_range query u = list_ex (\<lambda>n. fetch_query (of_nat n) = query) [0..<Suc (unat u)]"

definition kept_uids :: "u32 list \<Rightarrow> u32 list" where
  "kept_uids w = filter (\<lambda>u. u \<in> set w) [5, 8, 9]"

definition box_crate :: "(u32 list, unit) Crate" where
  "box_crate =
     \<lparr>cr_capabilities = ret_io (\<lambda>name. name = ''IDLE'' \<or> name = ''MOVE'' \<or> name = ''UIDPLUS''),
      cr_select = (\<lambda>_. ret_io \<lparr>mx_uid_validity = Some 7, mx_uid_next = Some 10, mx_exists = 3, mx_highest_modseq = None\<rparr>),
      cr_uid_fetch = (\<lambda>query _ sw.
        (Inr (map (\<lambda>u. Inr (box_fetch u))
           (if list_ex (in_range query) (kept_uids (snd sw)) then filter (in_range query) (kept_uids (snd sw))
            else if kept_uids (snd sw) = [] then [] else [last (kept_uids (snd sw))])), sw)),
      cr_uid_mv = (\<lambda>uid _ sw. (Inr (), (fst sw, filter (\<lambda>u. show_word u \<noteq> uid) (snd sw)))),
      cr_uid_copy = (\<lambda>_ _. ret_io ()), cr_uid_store = (\<lambda>_ _. ret_io []),
      cr_uid_expunge = (\<lambda>uids sw. (Inr [], (fst sw, filter (\<lambda>u. uid_set [u] \<noteq> uids) (snd sw)))),
      cr_create = (\<lambda>_. ret_io ()), cr_append = (\<lambda>_ _. ret_io ()), cr_idle_init = ret_io (),
      cr_idle_wait = (\<lambda>_. ret_io NewData), cr_idle_done = ret_io ()\<rparr>"

definition crate_box :: "(u32 list, unit) client \<Rightarrow> MessageContext list" where
  "crate_box c = map (\<lambda>u. context_of (box_fetch u)) (kept_uids (snd c))"

definition session_up :: "(u32 list, unit) client \<Rightarrow> bool" where
  "session_up c \<longleftrightarrow> fst c \<noteq> None"

definition crate_manager :: "((u32 list, unit) client, Event list) SessionManager" where
  "crate_manager =
     \<lparr>sm_engine = sieve_engine_impl script_rs, sm_current = (\<lambda>_. []), sm_imap = async_imap box_crate,
      sm_smtp = None, sm_mailbox = ''INBOX'', sm_idle_timeout = IDLE_TIMEOUT, sm_batch_size = 2,
      sm_stamp = (\<lambda>w. (([], []), w)), sm_serde = full_serde\<rparr>"

definition crate_caps :: Capabilities where
  "crate_caps = \<lparr>cap_idle = True, cap_uidplus = True, cap_supports_move = True, cap_condstore = False, cap_qresync = False\<rparr>"

lemma fetch_query_inj: "fetch_query a = fetch_query b \<longleftrightarrow> a = b"
  by (simp add: fetch_query_def inj_show_word)

lemma in_range_query: "in_range (fetch_query n) = (\<le>) n"
proof (rule ext)
  fix u
  have "in_range (fetch_query n) u \<longleftrightarrow> (\<exists>k \<le> unat u. (of_nat k :: u32) = n)"
    by (auto simp: in_range_def list_ex_iff fetch_query_inj less_Suc_eq_le simp del: upt_Suc)
  also have "\<dots> \<longleftrightarrow> n \<le> u"
  proof
    assume "\<exists>k \<le> unat u. (of_nat k :: u32) = n"
    then obtain k where "k \<le> unat u" "n = of_nat k" by auto
    then show "n \<le> u" by (simp add: word_le_nat_alt unat_of_nat)
  next
    assume "n \<le> u"
    then show "\<exists>k \<le> unat u. (of_nat k :: u32) = n"
      by (intro exI [of _ "unat n"]) (simp add: word_le_nat_alt)
  qed
  finally show "in_range (fetch_query n) u = (n \<le> u)" .
qed

lemma crate_fetch:
  "fetch_uid_range (async_imap box_crate) mailbox n since (Some s, w) =
     (Inr (star_range n (crate_box (Some s, w))), (Some s, w))"
proof -
  let ?f = "\<lambda>u. context_of (box_fetch u)"
  let ?us = "if list_ex (in_range (fetch_query n)) (kept_uids w) then filter (in_range (fetch_query n)) (kept_uids w)
            else if kept_uids w = [] then [] else [last (kept_uids w)]"
  have uid: "msg_uid (?f u) = u" for u by (simp add: context_of_def Let_def box_fetch_def)
  have "read_items (map (\<lambda>u. Inr (box_fetch u)) us) [] = Inr (map ?f us)" for us
    using read_items_Inr [of "map (\<lambda>u. Inr (box_fetch u)) us" "[]" "map ?f us"]
    by (auto intro: exI [of _ "map box_fetch us"])
  moreover have us: "map ?f ?us = star_range n (crate_box (Some s, w))"
    by (auto simp: star_range_def crate_box_def uid in_range_query list_ex_iff filter_map comp_def last_map)
  ultimately have "read_items (map (\<lambda>u. Inr (box_fetch u)) ?us) [] = Inr (star_range n (crate_box (Some s, w)))"
    by metis
  moreover have "with_session (cr_uid_fetch box_crate (fetch_query n) (fetch_spec since)) (Some s, w) =
      (Inr (map (\<lambda>u. Inr (box_fetch u)) ?us), (Some s, w))"
    by (simp add: with_session_def box_crate_def)
  ultimately show ?thesis
    by (simp add: async_imap_def fetch_uid_range_impl_def bind_io_def lift_result_def)
qed

lemma others_crate_box:
  "others u (crate_box (so, filter (\<lambda>v. v \<noteq> u) w)) = others u (crate_box (so, w))"
  by (simp add: others_def crate_box_def kept_uids_def context_of_def Let_def box_fetch_def)

lemma crate_box_up: "crate_box (so, w) = crate_box (so', w)"
  by (simp add: crate_box_def)

lemma crate_server: "imap_server (async_imap box_crate) mailbox crate_box"
proof -
  have uid: "msg_uid (context_of (box_fetch u)) = u" for u by (simp add: context_of_def Let_def box_fetch_def)
  have "sorted_wrt (<) (map msg_uid (crate_box c))" for c
    by (simp add: crate_box_def comp_def uid kept_uids_def)
  moreover have "prefix (crate_box c) (crate_box c') \<and> msgs = star_range n (crate_box c')"
    if "fetch_uid_range (async_imap box_crate) mailbox n None c = (Inr msgs, c')" for c n msgs c'
  proof (cases c)
    case (Pair so w)
    show ?thesis
    proof (cases so)
      case None
      with that Pair show ?thesis
        by (simp add: async_imap_def fetch_uid_range_impl_def with_session_def bind_io_def throw_io_def)
    next
      case (Some s)
      with that Pair show ?thesis by (cases s) (auto simp: crate_fetch)
    qed
  qed
  moreover have "prefix (others u (crate_box c)) (others u (crate_box (snd (run_op (async_imap box_crate) op c))))"
    if op: "about u op" for u op c
  proof (cases c)
    case (Pair so w)
    then show ?thesis
      using op others_crate_box [of u so w]
      by (cases so; cases op)
         (auto simp: async_imap_def box_crate_def uid_move_impl_def uid_copy_impl_def uid_store_flags_impl_def
            uid_expunge_impl_def uid_create_mailbox_impl_def with_session_def bind_io_def lift_result_def
            ret_io_def inj_show_word uid_set_unambiguous)
  qed
  ultimately show ?thesis unfolding imap_server_def by blast
qed

lemma crate_manager_ok:
  "imap_server (sm_imap crate_manager) (sm_mailbox crate_manager) crate_box"
  "mail_only_arrives (processor crate_manager caps) crate_box"
  "healthy crate_manager caps crate_box session_up"
proof -
  show "imap_server (sm_imap crate_manager) (sm_mailbox crate_manager) crate_box"
    using crate_server by (simp add: crate_manager_def)
  show "mail_only_arrives (processor crate_manager caps) crate_box"
    by (simp add: mail_only_arrives_def processor_def crate_manager_def)
  have "\<exists>msgs w'. fetch_uid_range (async_imap box_crate) mailbox n None w = (Inr msgs, w') \<and> session_up w'"
    if "session_up w" for mailbox n w
    using that by (cases w) (auto simp: session_up_def crate_fetch)
  moreover have "evaluate (sieve_engine_impl script_rs) script m = Inr [FileInto ''A'' True False]"
    if at: "m \<in> set (crate_box w)" for m script w
  proof -
    obtain u where m: "m = context_of (box_fetch u)" using at by (auto simp: crate_box_def)
    obtain raw where raw: "msg_raw m = Some raw" by (simp add: m context_of_def Let_def box_fetch_def sample_fetch_def)
    have "foldl (\<lambda>i to. i) i tos = i" for i :: "Event list" and tos :: "string list" by (induction tos) simp_all
    then have "start_instance script_rs m raw = [EvFileInto ''A'' [] False, EvKeep []]"
      by (simp add: start_instance_def script_rs_def Let_def split: option.split)
    then have "emits script_rs (InputScript ''main'' script) (start_instance script_rs m raw)
        [EvFileInto ''A'' [] False, EvKeep []] None" using script_rs_emits by simp
    from evaluate_impl_emits [OF raw this] show ?thesis
      by (simp add: evaluate_sieve_engine_impl finish_def implicit_keep_def detect_copy_def)
  qed
  moreover have "\<exists>w'. execute (executor (processor crate_manager caps)) m [FileInto ''A'' True False] w = (Inr (), w') \<and> session_up w'"
    if "session_up w" for m w
    using that by (cases w)
      (auto simp: session_up_def execute_def bind_io_def executor_def processor_def crate_manager_def async_imap_def
        uid_copy_impl_def with_session_def box_crate_def ret_io_def)
  moreover have "\<exists>ev w'. idle (async_imap box_crate) d w = (Inr ev, w') \<and> ev \<noteq> Disconnected \<and>
      prefix (crate_box w) (crate_box w') \<and> session_up w'" if "session_up w" for d w
    using that by (cases w) (auto simp: session_up_def async_imap_def idle_impl_def box_crate_def ret_io_def crate_box_up)
  ultimately show "healthy crate_manager caps crate_box session_up"
    unfolding healthy_def by (simp add: crate_manager_def full_serde_def)
qed

definition crate_backlog :: "(u32 list, unit) client world" where
  "crate_backlog = ((Some (), [5, 8, 9]), sample_store 4, sample_disk)"

lemma crate_queue: "map msg_uid (queue crate_box crate_backlog) = [5, 8, 9]"
  by (simp add: crate_backlog_def queue_def last_seen_def sample_store_def pending_def crate_box_def kept_uids_def
      context_of_def Let_def box_fetch_def)

theorem backlog_drained_witness:
  "\<exists>w' u'. session_run crate_manager [False] crate_backlog = ((None, []), w') \<and> last_seen w' = Some u' \<and> 9 \<le> u'"
proof -
  let ?c = "(Some (), [5, 8, 9]) :: (u32 list, unit) client"
  let ?status = "\<lparr>mb_uidvalidity = 7, mb_uidnext = 10, mb_exists = 3, mb_highestmodseq = None\<rparr>"
  have start: "no_faults session_up crate_backlog" "last_seen crate_backlog = Some 4" "fst crate_backlog = ?c"
    "st_uidvalidity (persisted crate_backlog) = None"
    by (simp_all add: crate_backlog_def no_faults_def session_up_def sample_disk_def last_seen_def sample_store_def
        persisted_def default_State_def)
  have cap: "capabilities (sm_imap crate_manager) (fst crate_backlog) = (Inr crate_caps, ?c)"
    by (simp add: start(3) crate_manager_def async_imap_def capabilities_impl_def bind_io_def with_session_def
        box_crate_def ret_io_def crate_caps_def)
  have sel: "select (sm_imap crate_manager) (sm_mailbox crate_manager) ?c = (Inr ?status, ?c)"
    by (simp add: crate_manager_def async_imap_def select_impl_def bind_io_def with_session_def box_crate_def ret_io_def)
  have "length (queue crate_box crate_backlog) = length (map msg_uid (queue crate_box crate_backlog))" by simp
  also have "\<dots> = 3" by (simp only: crate_queue) simp
  finally have len: "length (queue crate_box crate_backlog) \<le> Suc 1 * unat (sm_batch_size crate_manager)"
    by (simp add: crate_manager_def)
  have "\<exists>w' u'. session_run crate_manager (replicate 1 False) crate_backlog = ((None, []), w') \<and>
      last_seen w' = Some u' \<and> list_all (\<lambda>m. msg_uid m \<le> u') (queue crate_box crate_backlog)"
    by (rule backlog_drained [OF crate_manager_ok(3,1,2) _ start(1,2) cap _ sel _ _ _ _ len])
       (simp_all add: start crate_caps_def session_up_def)
  then obtain w' u' where run: "session_run crate_manager [False] crate_backlog = ((None, []), w')"
    "last_seen w' = Some u'" and "list_all (\<lambda>v. v \<le> u') (map msg_uid (queue crate_box crate_backlog))"
    by (auto simp: list.pred_map comp_def)
  then have "9 \<le> u'" unfolding crate_queue by simp
  with run show ?thesis by blast
qed

text \<open>
  C16. A message can be lost to its script half way. The batch stops at a message whose execution
  fails, so as to process it again; but if the first of its actions has moved it to another mailbox
  and the second one fails, here a redirect, the record stays below the message and yet it is gone:
  on a server that behaves as IMAP says, gives no UID twice, takes a moved message out of the mailbox
  and has no CONDSTORE, no fetch after any number of further batches, however they end, returns a
  message with its UID, so the redirect is never tried again.
\<close>

theorem moved_then_failed_is_lost:
  assumes "imap_server (mp_imap self) (mp_mailbox self) box" and "assigns_fresh_uids self box nxt"
    and "move_removes (mp_imap self) box" and "\<not> cap_condstore (mp_caps self)" and "0 < mp_batch_size self"
    and "last_seen w = Some u"
    and "fetch_uid_range (mp_imap self) (mp_mailbox self) (u + 1) None (fst w) = (Inr (m # ms), w0)"
    and "evaluate (mp_engine self) (mp_current self w0) m = Inr [FileInto f False False, Redirect to]"
    and "cap_supports_move (mp_caps self)" and "uid_move (mp_imap self) (msg_uid m) f w0 = (Inr (), w1)"
    and "mp_smtp self = Some s" and "msg_raw m = Some raw" and "msg_envelope_from m = Some sender"
    and "send s \<lparr>om_envelope_from = sender, om_envelope_to = to, om_raw = raw\<rparr> w1 = (Inl e, w2)"
  shows "run_batch self w = (Inr [\<lparr>pr_uid = msg_uid m, pr_actions = [FileInto f False False, Redirect to],
             pr_status = ActionError (display_core_error e)\<rparr>], (w2, snd w)) \<and>
         last_seen (w2, snd w) = Some u \<and>
         (\<forall>k n. case fst (fetch_uid_range (mp_imap self) (mp_mailbox self) n None
                           (fst (after_batches k self (w2, snd w)))) of
                  Inl _ \<Rightarrow> True
                | Inr msgs \<Rightarrow> list_all (\<lambda>m'. msg_uid m' \<noteq> msg_uid m) msgs)"
proof (intro conjI allI)
  have "execute (executor self) m [FileInto f False False, Redirect to] w0 = (Inl e, w2)"
    using assms by (simp add: execute_def executor_def bind_io_def move_with_fallback_def)
  moreover have "take (unat (mp_batch_size self)) (m # ms) = m # take (unat (mp_batch_size self) - 1) ms"
    using assms(5) by (cases "unat (mp_batch_size self)") (auto simp: word_less_nat_alt)
  ultimately show "run_batch self w = (Inr [\<lparr>pr_uid = msg_uid m, pr_actions = [FileInto f False False, Redirect to],
      pr_status = ActionError (display_core_error e)\<rparr>], (w2, snd w))"
    using assms by (simp add: run_batch_def Let_def)
  show "last_seen (w2, snd w) = Some u" using assms(6) by (simp add: last_seen_def)
next
  fix k n
  let ?v = "fst (after_batches k self (w2, snd w))"
  have in_range: "set (star_range n b) \<subseteq> set b" for n b by (auto simp: star_range_def)
  have "m \<in> set (box w0)" using assms(1,7) in_range [of "u + 1" "box w0"] unfolding imap_server_def by (metis list.set_intros(1) subsetD)
  then have "unat (msg_uid m) < nxt w0" using assms(2) by (simp add: assigns_fresh_uids_def uids_def)
  moreover have "uids_grow box nxt w0 w1"
    using assms(2,10) unfolding assigns_fresh_uids_def by (metis run_op.simps(1) snd_conv)
  ultimately have "unat (msg_uid m) < nxt w1" by (simp add: uids_grow_def)
  moreover have "msg_uid m \<notin> uids (box w1)" using assms(3,10) by (simp add: move_removes_def)
  moreover have "uids_grow box nxt w1 w2"
    using assms(2,11,14) unfolding assigns_fresh_uids_def by (metis snd_conv)
  then have "uids_grow box nxt w1 ?v" using batches_grow [OF assms(2), of "(w2, snd w)" k] by (auto intro: uids_grow_trans)
  moreover have "uids_grow box nxt ?v (snd (fetch_uid_range (mp_imap self) (mp_mailbox self) n None ?v))"
    using assms(2) by (simp add: assigns_fresh_uids_def)
  ultimately have gone: "msg_uid m \<notin> uids (box (snd (fetch_uid_range (mp_imap self) (mp_mailbox self) n None ?v)))"
    using gone_for_good by metis
  have "list_all (\<lambda>m'. msg_uid m' \<noteq> msg_uid m) msgs"
    if "fetch_uid_range (mp_imap self) (mp_mailbox self) n None ?v = (Inr msgs, w')" for msgs w'
  proof -
    have "msgs = star_range n (box w')" using assms(1) that by (auto simp: imap_server_def)
    then have "msg_uid m \<notin> msg_uid ` set msgs"
      using gone that image_mono [OF in_range [of n "box w'"], of msg_uid] by (auto simp: uids_def)
    then show ?thesis by (auto simp: list_all_iff image_iff)
  qed
  then show "case fst (fetch_uid_range (mp_imap self) (mp_mailbox self) n None ?v) of Inl _ \<Rightarrow> True
      | Inr msgs \<Rightarrow> list_all (\<lambda>m'. msg_uid m' \<noteq> msg_uid m) msgs"
    by (cases "fetch_uid_range (mp_imap self) (mp_mailbox self) n None ?v") (auto split: sum.split)
qed

definition refusing :: "u32 list MailSender" where
  "refusing = \<lparr>send = (\<lambda>_. throw_io (Smtp ''refused''))\<rparr>"

definition losing_processor :: "(u32 list, string) MessageProcessor" where
  "losing_processor = (processor sample_manager sample_caps)
     \<lparr>mp_engine := \<lparr>compile = Inr, evaluate = (\<lambda>_ _. Inr [FileInto ''Work'' False False, Redirect [''b@example.org'']])\<rparr>,
      mp_smtp := Some refusing\<rparr>"

lemma losing_processor_fields [simp]:
  "mp_imap losing_processor = sample_server" "mp_mailbox losing_processor = ''INBOX''"
  "mp_caps losing_processor = sample_caps" "mp_batch_size losing_processor = 2" "mp_smtp losing_processor = Some refusing"
  "mp_stamp losing_processor = (\<lambda>w. (([], []), w))"
  "evaluate (mp_engine losing_processor) script m = Inr [FileInto ''Work'' False False, Redirect [''b@example.org'']]"
  by (simp_all add: losing_processor_def processor_def sample_manager_def)

lemma sample_box_uids: "uids (sample_box w) = set w \<inter> {5, 8, 9}"
  by (auto simp: uids_def sample_box_def sample_msg_def)

lemma losing_fresh: "assigns_fresh_uids losing_processor sample_box (\<lambda>_. 10)"
proof -
  have "uids_grow sample_box (\<lambda>_. 10) w (snd (run_op sample_server op w))" for op w
    by (cases op) (auto simp: uids_grow_def sample_box_uids sample_server_def)
  then show ?thesis
    by (simp add: assigns_fresh_uids_def sample_server_def refusing_def uids_grow_refl) (auto simp: sample_box_uids)
qed

theorem moved_then_failed_is_lost_witness:
  "last_seen (snd (run_batch losing_processor sample_backlog)) = Some 4 \<and>
   list_all (\<lambda>m. msg_uid m \<noteq> 5) (star_range 5 (sample_box (fst (after_batches 1 losing_processor ([8, 9], snd sample_backlog)))))"
proof -
  let ?p = losing_processor
  have f: "fetch_uid_range (mp_imap ?p) (mp_mailbox ?p) (4 + 1) None (fst sample_backlog) =
      (Inr (sample_msg 5 # map sample_msg [8, 9]), [5, 8, 9])"
    by (simp add: sample_server_def star_range_def sample_box_def) (simp add: sample_msg_def)
  have mv: "uid_move (mp_imap ?p) (msg_uid (sample_msg 5)) ''Work'' [5, 8, 9] = (Inr (), [8, 9])"
    by (simp add: sample_server_def sample_msg_def)
  have gone: "move_removes (mp_imap ?p) sample_box"
    by (auto simp: move_removes_def sample_server_def sample_box_uids)
  have server: "imap_server (mp_imap ?p) (mp_mailbox ?p) sample_box" by (simp add: sample_server_ok)
  let ?after = "\<lambda>k. fst (after_batches k ?p ([8, 9], snd sample_backlog))"
  have lost: "run_batch ?p sample_backlog =
      (Inr [\<lparr>pr_uid = msg_uid (sample_msg 5), pr_actions = [FileInto ''Work'' False False, Redirect [''b@example.org'']],
         pr_status = ActionError (display_core_error (Smtp ''refused''))\<rparr>], ([8, 9], snd sample_backlog)) \<and>
      last_seen ([8, 9] :: u32 list, snd sample_backlog) = Some 4 \<and>
      (\<forall>k n. case fst (fetch_uid_range (mp_imap ?p) (mp_mailbox ?p) n None (?after k)) of
         Inl _ \<Rightarrow> True | Inr msgs \<Rightarrow> list_all (\<lambda>m'. msg_uid m' \<noteq> msg_uid (sample_msg 5)) msgs)"
    by (rule moved_then_failed_is_lost
          [OF server losing_fresh gone _ _ sample_backlog_facts(1) f _ _ mv, where s = refusing])
       (simp_all add: sample_caps_def new_FakeImap_def sample_msg_def refusing_def)
  then have "last_seen (snd (run_batch ?p sample_backlog)) = Some 4" by simp
  with lost [THEN conjunct2, THEN conjunct2, THEN spec, THEN spec, of 5 1] show ?thesis
    by (simp add: sample_server_def sample_msg_def)
qed

text \<open>
  C29. An idle mailbox makes the daemon repeat itself. When no message is beyond the record, the
  range \<open>n:*\<close> still denotes the last message of the mailbox, and the batch does not compare UIDs: on
  a server that behaves as IMAP says and has no CONDSTORE it evaluates that message and executes its
  actions again, and if these and the write succeed, the record is where it was, so that the next
  batch does the same. On a first run, where the record is \<open>UIDNEXT - 1\<close>, this makes the daemon
  process a message that was there before it.
\<close>

theorem idle_mailbox_repeats_last:
  assumes "imap_server (mp_imap self) (mp_mailbox self) box" and "\<not> cap_condstore (mp_caps self)"
    and "0 < mp_batch_size self" and "last_seen w = Some u"
    and "fetch_uid_range (mp_imap self) (mp_mailbox self) (u + 1) None (fst w) = (Inr msgs, w0)"
    and "box w0 \<noteq> []" and "pending u (box w0) = []" and "u < - 1"
    and "evaluate (mp_engine self) (mp_current self w0) (last (box w0)) = Inr actions"
    and "execute (executor self) (last (box w0)) actions w0 = (Inr (), w1)"
    and "update (mp_serde self) (advance_to (msg_uid (last (box w0)))) (snd w) = (Inr (), st)"
  shows "run_batch self w = (Inr [\<lparr>pr_uid = msg_uid (last (box w0)), pr_actions = actions, pr_status = Ok\<rparr>], (w1, st)) \<and>
         last_seen (w1, st) = Some u"
proof -
  have old: "\<forall>m \<in> set (box w0). msg_uid m \<le> u" using assms(7) by (simp add: pending_Nil_le)
  have "\<not> u + 1 \<le> msg_uid m" if "m \<in> set (box w0)" for m
    using that old succ_le_word [of u] assms(8) by (auto simp: not_less)
  then have "star_range (u + 1) (box w0) = [last (box w0)]"
    using assms(6) by (auto simp: star_range_def)
  then have msgs: "msgs = [last (box w0)]" using assms(1,5) by (auto simp: imap_server_def)
  have "take (unat (mp_batch_size self)) [last (box w0)] = [last (box w0)]"
    using assms(3) by (cases "unat (mp_batch_size self)") (auto simp: word_less_nat_alt)
  with assms(2,4,5,9-11) msgs
  have "run_batch self w = (Inr [\<lparr>pr_uid = msg_uid (last (box w0)), pr_actions = actions, pr_status = Ok\<rparr>], (w1, st))"
    by (simp add: run_batch_def Let_def)
  moreover have "last_seen (w1, st) = Some (max (msg_uid (last (box w0))) u)"
    using update_advance(1) [OF assms(11)] assms(4) by (simp add: last_seen_def)
  ultimately show ?thesis using old assms(6) by (simp add: max_def)
qed

theorem idle_mailbox_repeats_last_witness:
  "\<exists>w'. run_batch (processor sample_manager sample_caps) ([5, 8], sample_store 8, sample_disk) =
     (Inr [\<lparr>pr_uid = 8, pr_actions = [Keep], pr_status = Ok\<rparr>], w') \<and> last_seen w' = Some 8"
proof -
  let ?p = "processor sample_manager sample_caps" and ?w = "([5, 8] :: u32 list, (sample_store 8, sample_disk))"
  have box: "sample_box [5, 8] = [sample_msg 5, sample_msg 8]" by (simp add: sample_box_def)
  have seen: "last_seen ?w = Some 8" by (simp add: last_seen_def sample_store_def)
  have server: "imap_server (mp_imap ?p) (mp_mailbox ?p) sample_box"
    using sample_manager_ok(1) by (simp add: processor_def)
  have p: "\<not> cap_condstore (mp_caps ?p)" "0 < mp_batch_size ?p"
    "evaluate (mp_engine ?p) (mp_current ?p [5, 8]) (last (sample_box [5, 8])) = Inr [Keep]"
    "execute (executor ?p) (last (sample_box [5, 8])) [Keep] [5, 8] = (Inr (), [5, 8])"
    "fetch_uid_range (mp_imap ?p) (mp_mailbox ?p) (8 + 1) None (fst ?w) = (Inr (star_range (8 + 1) (sample_box [5, 8])), [5, 8])"
    by (simp_all add: processor_def sample_manager_def sample_caps_def sample_engine_def execute_def bind_io_def
        sample_server_def)
  obtain b where "to_vec full_serde (advance_to 8 (ss_state (sample_store 8))) = Inr b"
    by (simp add: full_serde_def)
  then obtain st where "update full_serde (advance_to 8) (snd ?w) = (Inr (), st)"
    using update_no_fault [of sample_disk full_serde "advance_to 8" "sample_store 8"] by (auto simp: sample_disk_def)
  then have "update (mp_serde ?p) (advance_to (msg_uid (last (sample_box [5, 8])))) (snd ?w) = (Inr (), st)"
    by (simp add: processor_def sample_manager_def box sample_msg_def)
  from idle_mailbox_repeats_last [OF server p(1,2) seen p(5) _ _ _ p(3,4) this] show ?thesis
    by (simp add: box pending_def sample_msg_def)
qed

end
