(* ===== verification/Unit_Tests.thy ===== *)
theory Unit_Tests
  imports Supervisor Script_Loader
begin

text \<open>
  The program's own unit tests, run on the model. Each definition translates one test function of a
  \<open>#[cfg(test)]\<close> module: its fixture, its call and its assertions; the lemma of the same name says
  that the model passes it. The tests use the in-memory client and sender, so the world of an
  executor is a pair of the two fakes. Where a test uses a temporary directory it gets a disk here,
  where it uses \<open>serde_json\<close> the serializer \<open>full_serde\<close> of theory \<open>State_Store\<close>, and where it
  compiles a Sieve script a small engine that knows the scripts of the tests.
\<close>

section \<open>\<open>types.rs\<close>\<close>

definition header_lookup_is_case_insensitive :: bool where
  "header_lookup_is_case_insensitive \<longleftrightarrow>
     (let ctx = \<lparr>msg_uid = 1, msg_mailbox = ''INBOX'',
                 msg_headers = [''subject'' \<mapsto> ''Hello'', ''from'' \<mapsto> ''a@b.com''], msg_envelope_from = None,
                 msg_envelope_to = [], msg_raw = None, msg_flags = [], msg_size = 0\<rparr>
      in header ctx ''Subject'' = Some ''Hello'' \<and> header ctx ''SUBJECT'' = Some ''Hello'' \<and>
         header ctx ''From'' = Some ''a@b.com'' \<and> header ctx ''missing'' = None)"

definition parse_headers_basic :: bool where
  "parse_headers_basic \<longleftrightarrow>
     (let h = parse_headers (''Subject: hello'' @ CRLF @ ''From: a@b.com'' @ CRLF @ CRLF @ ''body'')
      in h ''subject'' = Some ''hello'' \<and> h ''from'' = Some ''a@b.com'')"

definition parse_headers_concatenates_duplicates :: bool where
  "parse_headers_concatenates_duplicates \<longleftrightarrow>
     (let h = parse_headers (''Received: by mx1'' @ CRLF @ ''Received: from mx2'' @ CRLF @ CRLF)
      in h ''received'' = Some ''by mx1, from mx2'')"

definition parse_headers_unfolds_continuation :: bool where
  "parse_headers_unfolds_continuation \<longleftrightarrow>
     (let h = parse_headers (''Subject: this is'' @ CRLF @ '' a folded'' @ CRLF @ '' header'' @ CRLF @ CRLF)
      in h ''subject'' = Some ''this is a folded header'')"

definition parse_headers_return_path_preserves_brackets :: bool where
  "parse_headers_return_path_preserves_brackets \<longleftrightarrow>
     (let h = parse_headers (''Return-Path: <user@example.com>'' @ CRLF @ ''From: a@b.com'' @ CRLF @ CRLF)
      in h ''return-path'' = Some ''<user@example.com>'')"

definition strip_brackets :: "string \<Rightarrow> string" where
  "strip_brackets s =
     (let s = trim s in
      case strip_prefix CHR ''<'' s of
        None \<Rightarrow> s
      | Some t \<Rightarrow> (case strip_suffix CHR ''>'' t of None \<Rightarrow> s | Some u \<Rightarrow> u))"

definition strip_return_path_angle_brackets :: bool where
  "strip_return_path_angle_brackets \<longleftrightarrow>
     strip_brackets ''<user@example.com>'' = ''user@example.com'' \<and>
     strip_brackets ''user@example.com'' = ''user@example.com'' \<and>
     strip_brackets '' <>'' = [] \<and> strip_brackets ''<>'' = []"

lemma types_tests:
  header_lookup_is_case_insensitive parse_headers_basic parse_headers_concatenates_duplicates
  parse_headers_unfolds_continuation parse_headers_return_path_preserves_brackets
  strip_return_path_angle_brackets
  by code_simp+

section \<open>\<open>imap_client.rs\<close> and \<open>smtp_sender.rs\<close>\<close>

definition move_fixture :: "bool \<Rightarrow> bool \<Rightarrow> (CoreError + unit) \<times> FakeImap" where
  "move_fixture supports_move uidplus =
     (let caps = default_Capabilities\<lparr>cap_supports_move := supports_move, cap_uidplus := uidplus, cap_idle := True\<rparr>
      in move_with_fallback fake_imap caps 5 ''Junk'' (with_caps new_FakeImap caps))"

definition move_with_fallback_uses_native_move_when_available :: bool where
  "move_with_fallback_uses_native_move_when_available \<longleftrightarrow>
     (case move_fixture True True of (r, fake) \<Rightarrow> r = Inr () \<and> fake_ops fake = [Move 5 ''Junk''])"

definition move_with_fallback_falls_back_to_copy_store_expunge :: bool where
  "move_with_fallback_falls_back_to_copy_store_expunge \<longleftrightarrow>
     (case move_fixture False True of (r, fake) \<Rightarrow>
        r = Inr () \<and> fake_ops fake = [Copy 5 ''Junk'', Store 5 Add [CHR 0x5C # ''Deleted''], Expunge [5]])"

definition move_with_fallback_skips_expunge_without_uidplus :: bool where
  "move_with_fallback_skips_expunge_without_uidplus \<longleftrightarrow>
     (case move_fixture False False of (r, fake) \<Rightarrow>
        r = Inr () \<and> fake_ops fake = [Copy 5 ''Junk'', Store 5 Add [CHR 0x5C # ''Deleted'']])"

definition fake_records_sent_mail :: bool where
  "fake_records_sent_mail \<longleftrightarrow>
     (case send fake_sender
             \<lparr>om_envelope_from = ''a@b'', om_envelope_to = [''c@d''], om_raw = ''Subject: x'' @ CRLF @ CRLF @ ''body''\<rparr>
             new_FakeSender of
        (r, s) \<Rightarrow> r = Inr () \<and> length (fake_sent s) = 1)"

lemma client_tests:
  move_with_fallback_uses_native_move_when_available
  move_with_fallback_falls_back_to_copy_store_expunge
  move_with_fallback_skips_expunge_without_uidplus
  fake_records_sent_mail
  by code_simp+

section \<open>\<open>action_executor.rs\<close>\<close>

text \<open>The fakes on the two halves of a pair.\<close>

definition on_fst :: "('a, 'e, 'r) io \<Rightarrow> ('a \<times> 'b, 'e, 'r) io" where
  "on_fst m w = (case m (fst w) of (r, a) \<Rightarrow> (r, (a, snd w)))"

definition on_snd :: "('b, 'e, 'r) io \<Rightarrow> ('a \<times> 'b, 'e, 'r) io" where
  "on_snd m w = (case m (snd w) of (r, b) \<Rightarrow> (r, (fst w, b)))"

definition both_imap :: "(FakeImap \<times> FakeSender) ImapClient" where
  "both_imap =
     \<lparr>capabilities = on_fst (capabilities fake_imap),
      select = (\<lambda>m. on_fst (select fake_imap m)),
      fetch_uid_range = (\<lambda>m n s. on_fst (fetch_uid_range fake_imap m n s)),
      uid_move = (\<lambda>u t. on_fst (uid_move fake_imap u t)),
      uid_copy = (\<lambda>u t. on_fst (uid_copy fake_imap u t)),
      uid_store_flags = (\<lambda>u f fl. on_fst (uid_store_flags fake_imap u f fl)),
      uid_expunge = (\<lambda>us. on_fst (uid_expunge fake_imap us)),
      uid_create_mailbox = (\<lambda>m. on_fst (uid_create_mailbox fake_imap m)),
      idle = (\<lambda>t. on_fst (idle fake_imap t))\<rparr>"

definition both_sender :: "(FakeImap \<times> FakeSender) MailSender" where
  "both_sender = \<lparr>send = (\<lambda>mail. on_snd (send fake_sender mail))\<rparr>"

definition executor_ctx :: "u32 \<Rightarrow> MessageContext" where
  "executor_ctx uid =
     \<lparr>msg_uid = uid, msg_mailbox = ''INBOX'', msg_headers = [''subject'' \<mapsto> ''x''],
      msg_envelope_from = Some ''a@b.com'', msg_envelope_to = [''b@c.com''],
      msg_raw = Some (''Subject: x'' @ CRLF @ CRLF @ ''body''), msg_flags = [], msg_size = 16\<rparr>"

definition executor_fixture ::
    "(FakeImap \<times> FakeSender) MailSender option \<Rightarrow> u32 \<Rightarrow> SieveAction list
       \<Rightarrow> (CoreError + unit) \<times> FakeImap \<times> FakeSender" where
  "executor_fixture smtp uid actions =
     execute \<lparr>ae_imap = both_imap, ae_smtp = smtp, ae_caps = fk_caps new_FakeImap,
              ae_source_mailbox = ''INBOX'', ae_stamp = (\<lambda>w. ((''date'', ''uuid''), w))\<rparr>
       (executor_ctx uid) actions (new_FakeImap, new_FakeSender)"

definition keep_action_is_a_noop :: bool where
  "keep_action_is_a_noop \<longleftrightarrow>
     (case executor_fixture (Some both_sender) 1 [Keep] of
        (r, imap, smtp) \<Rightarrow> r = Inr () \<and> fake_ops imap = [] \<and> fake_sent smtp = [])"

definition fileinto_uses_move :: bool where
  "fileinto_uses_move \<longleftrightarrow>
     (case executor_fixture (Some both_sender) 7 [FileInto ''Junk'' False False] of
        (r, imap, smtp) \<Rightarrow> r = Inr () \<and> fake_ops imap = [Move 7 ''Junk''])"

definition discard_marks_deleted_and_expunges :: bool where
  "discard_marks_deleted_and_expunges \<longleftrightarrow>
     (case executor_fixture (Some both_sender) 9 [Discard] of
        (r, imap, smtp) \<Rightarrow>
          r = Inr () \<and> fake_ops imap = [Store 9 Add [CHR 0x5C # ''Deleted''], Expunge [9]])"

definition redirect_calls_smtp :: bool where
  "redirect_calls_smtp \<longleftrightarrow>
     (case executor_fixture (Some both_sender) 2 [Redirect [''dest@x.com'']] of
        (r, imap, smtp) \<Rightarrow>
          r = Inr () \<and> length (fake_sent smtp) = 1 \<and> om_envelope_to (hd (fake_sent smtp)) = [''dest@x.com''])"

definition redirect_without_smtp_errors :: bool where
  "redirect_without_smtp_errors \<longleftrightarrow>
     (case executor_fixture None 3 [Redirect [''x@y'']] of
        (Inl (Smtp _), _) \<Rightarrow> True | _ \<Rightarrow> False)"

definition add_flag_issues_store :: bool where
  "add_flag_issues_store \<longleftrightarrow>
     (case executor_fixture (Some both_sender) 4 [AddFlag [CHR 0x5C # ''Seen'']] of
        (r, imap, smtp) \<Rightarrow> r = Inr () \<and> fake_ops imap = [Store 4 Add [CHR 0x5C # ''Seen'']])"

definition fileinto_copy_uses_uid_copy :: bool where
  "fileinto_copy_uses_uid_copy \<longleftrightarrow>
     (case executor_fixture (Some both_sender) 7 [FileInto ''Archive'' True False] of
        (r, imap, smtp) \<Rightarrow> r = Inr () \<and> fake_ops imap = [Copy 7 ''Archive''])"

definition fileinto_create_creates_mailbox_first :: bool where
  "fileinto_create_creates_mailbox_first \<longleftrightarrow>
     (case executor_fixture (Some both_sender) 5 [FileInto ''NewFolder'' False True] of
        (r, imap, smtp) \<Rightarrow> r = Inr () \<and> fake_ops imap = [CreateMailbox ''NewFolder'', Move 5 ''NewFolder''])"

lemma executor_tests:
  keep_action_is_a_noop fileinto_uses_move discard_marks_deleted_and_expunges redirect_calls_smtp
  redirect_without_smtp_errors add_flag_issues_store fileinto_copy_uses_uid_copy
  fileinto_create_creates_mailbox_first
  by code_simp+

section \<open>\<open>state.rs\<close>\<close>

text \<open>
  An empty temporary directory, and a serializer that refuses every text it would not have written
  itself. A store of the tests is a pair of the store and the disk.
\<close>

definition temp_dir :: disk where
  "temp_dir = \<lparr>files = Map.empty, calls = 0, fault = (\<lambda>_. None), torn = (\<lambda>_. 0), tmp_name = (\<lambda>_. ''.tmp'')\<rparr>"

definition state_json :: string where
  "state_json = ''/d/state.json''"

definition strict_serde :: Serde where
  "strict_serde = full_serde\<lparr>from_slice := (\<lambda>b.
     case from_slice full_serde b of
       Inl m \<Rightarrow> Inl m
     | Inr s \<Rightarrow> if to_vec full_serde s = Inr b then Inr s else Inl ''expected value'')\<rparr>"

lemma strict_serde_parses_back: "parses_back strict_serde"
  using full_serde_parses_back by (simp add: parses_back_def strict_serde_def)

definition open_temp :: "disk \<Rightarrow> StateStore \<times> disk" where
  "open_temp d = (case open_store strict_serde state_json d of (r, d) \<Rightarrow> (projr r, d))"

definition missing_file_yields_empty_state :: bool where
  "missing_file_yields_empty_state \<longleftrightarrow> state (fst (open_temp temp_dir)) = default_State"

definition write_then_read_roundtrips :: bool where
  "write_then_read_roundtrips \<longleftrightarrow>
     (let f = (\<lambda>s. s\<lparr>st_selected_mailbox := Some ''INBOX'', st_uidvalidity := Some 42,
                     st_last_seen_uid := Some 100, st_highestmodseq := Some 999\<rparr>) in
      case update strict_serde f (open_temp temp_dir) of
        (r, _, d) \<Rightarrow>
          let store = fst (open_temp d) in
          r = Inr () \<and> st_selected_mailbox (state store) = Some ''INBOX'' \<and>
          st_uidvalidity (state store) = Some 42 \<and> st_last_seen_uid (state store) = Some 100 \<and>
          st_highestmodseq (state store) = Some 999)"

definition corrupt_file_returns_error :: bool where
  "corrupt_file_returns_error \<longleftrightarrow>
     (case open_store strict_serde state_json (temp_dir\<lparr>files := [state_json \<mapsto> ''this is not json'']\<rparr>) of
        (Inl (StateJson _), _) \<Rightarrow> True | _ \<Rightarrow> False)"

definition write_is_atomic_no_partial_files :: bool where
  "write_is_atomic_no_partial_files \<longleftrightarrow>
     (case update strict_serde (\<lambda>s. s\<lparr>st_last_seen_uid := Some 1\<rparr>) (open_temp temp_dir) of
        (r, _, d) \<Rightarrow> r = Inr () \<and> dom (files d) = {state_json})"

lemma open_temp_temp_dir: "open_temp temp_dir = (\<lparr>ss_path = state_json, ss_state = default_State\<rparr>, temp_dir\<lparr>calls := 2\<rparr>)"
  by (simp add: open_temp_def open_store_def create_dir_all_def fs_read_def fs_call_def temp_dir_def
      state_json_def path_parent_def drop_slashes_def Let_def ret_io_def)

lemma temp_update:
  "\<exists>b d. update strict_serde f (open_temp temp_dir) =
     (Inr (), (\<lparr>ss_path = state_json, ss_state = f default_State\<rparr>, d)) \<and>
     files d = [state_json \<mapsto> b] \<and> (\<forall>n. fault d n = None) \<and> from_slice strict_serde b = Inr (f default_State)"
proof -
  obtain b where b: "to_vec strict_serde (f default_State) = Inr b"
    by (simp add: strict_serde_def full_serde_def)
  moreover have "from_slice strict_serde b = Inr (f default_State)"
    using strict_serde_parses_back b by (auto simp: parses_back_def)
  ultimately show ?thesis
    unfolding open_temp_temp_dir
    by (simp add: update_def persist_def persist_steps_def tmp_path_def path_join_def path_parent_def drop_slashes_def
        temp_dir_def state_json_def Let_def fun_upd_idem) blast
qed

lemma open_temp_file:
  assumes "files d = [state_json \<mapsto> b]" and "\<forall>n. fault d n = None" and "from_slice strict_serde b = Inr s"
  shows "fst (open_temp d) = \<lparr>ss_path = state_json, ss_state = s\<rparr>"
  using assms
  by (cases "path_parent state_json")
     (simp_all add: open_temp_def open_store_def create_dir_all_def fs_read_def fs_call_def)

lemma state_tests:
  missing_file_yields_empty_state write_then_read_roundtrips corrupt_file_returns_error
  write_is_atomic_no_partial_files
proof -
  show missing_file_yields_empty_state
    by (simp add: missing_file_yields_empty_state_def open_temp_temp_dir state_def)
  show corrupt_file_returns_error
    by (simp add: corrupt_file_returns_error_def open_store_def create_dir_all_def fs_read_def fs_call_def
        temp_dir_def state_json_def path_parent_def drop_slashes_def Let_def ret_io_def strict_serde_def full_serde_def
        read_unary_def unary_def split: option.split)
  show write_is_atomic_no_partial_files
    using temp_update [of "\<lambda>s. s\<lparr>st_last_seen_uid := Some 1\<rparr>"]
    by (auto simp: write_is_atomic_no_partial_files_def split: if_splits)
  show write_then_read_roundtrips
    using temp_update [of "\<lambda>s. s\<lparr>st_selected_mailbox := Some ''INBOX'', st_uidvalidity := Some 42,
        st_last_seen_uid := Some 100, st_highestmodseq := Some 999\<rparr>"]
    by (fastforce simp: write_then_read_roundtrips_def open_temp_file state_def)
qed

section \<open>The back-off of \<open>session.rs\<close>\<close>

text \<open>
  A seeded generator is a fixed one here; the first test's assertion holds for every number it may
  draw, which is more than the test says.
\<close>

definition first_delay_respects_jitter_range :: "rat \<Rightarrow> bool" where
  "first_delay_respects_jitter_range drawn \<longleftrightarrow>
     (case next_delay (\<lambda>g hi. (drawn, g))
             (new_Backoff \<lparr>bc_initial = from_secs 10, bc_max = from_secs 300, bc_jitter = Fin (1 / 2)\<rparr>) () of
        Some (d, _) \<Rightarrow> from_secs 7 \<le> d \<and> d \<le> from_secs 15
      | None \<Rightarrow> False)"

definition no_jitter :: BackoffConfig where
  "no_jitter = \<lparr>bc_initial = from_secs 5, bc_max = from_secs 300, bc_jitter = Fin 0\<rparr>"

text \<open>Some calls of \<open>next_delay\<close> in a row, on a generator that draws zeros.\<close>

fun delays_from :: "nat \<Rightarrow> Backoff \<Rightarrow> Duration list \<times> Backoff" where
  "delays_from 0 b = ([], b)"
| "delays_from (Suc n) b =
     (case next_delay (\<lambda>g hi. (0, g)) b () of
        None \<Rightarrow> ([], b)
      | Some (d, b', _) \<Rightarrow> (case delays_from n b' of (ds, b'') \<Rightarrow> (d # ds, b'')))"

definition delay_grows_exponentially_then_caps :: bool where
  "delay_grows_exponentially_then_caps \<longleftrightarrow>
     (case delays_from 3 (new_Backoff no_jitter) of
        (ds, b) \<Rightarrow>
          ds = [from_secs 5, from_secs 10, from_secs 20] \<and>
          fst (delays_from 1 (snd (delays_from 20 b))) = [from_secs 300])"

definition reset_returns_to_initial :: bool where
  "reset_returns_to_initial \<longleftrightarrow>
     fst (delays_from 1 (reset (snd (delays_from 2 (new_Backoff no_jitter))))) = [from_secs 5]"

lemma delays_from_exact:
  assumes "bo_cfg b = no_jitter" and "bo_attempt b = attempts k"
  shows "delays_from n b =
     (map (\<lambda>i. from_millis (of_nat (min (5000 * 2 ^ (k + i)) 300000))) [0..<n], b\<lparr>bo_attempt := attempts (k + n)\<rparr>)"
  using assms
proof (induction n arbitrary: b k)
  case (Suc n)
  have "next_delay (\<lambda>g hi. (0, g)) b () = Some (from_millis (of_nat (capped b)), b\<lparr>bo_attempt := attempts (Suc k)\<rparr>, ())"
    using Suc.prems next_delay_exact [of b "\<lambda>g hi. (0, g)" "()" "()"]
    by (simp add: no_jitter_def from_secs_def as_millis_def attempts_Suc)
  moreover have "capped b = min (5000 * 2 ^ k) 300000"
    using Suc.prems capped_doubles [of b k] by (simp add: no_jitter_def from_secs_def as_millis_def)
  ultimately show ?case
    using Suc.IH [of "b\<lparr>bo_attempt := attempts (Suc k)\<rparr>" "Suc k"] Suc.prems
    by (simp add: upt_conv_Cons map_Suc_upt [symmetric] del: upt_Suc)
qed simp

text \<open>
  A jitter of a half gives a factor between \<open>0.75\<close> and \<open>1.25\<close>, so the first delay is between 7.5 and
  12.5 seconds.
\<close>

lemma half_jitter_factor:
  assumes "0 \<le> x" and "x \<le> 1 / 2"
  shows "3 / 4 \<le> jitter_factor (1 / 2) x" and "jitter_factor (1 / 2) x \<le> 5 / 4"
proof -
  have q: "rnd (of_int m / 4) = of_int m / 4" if "\<bar>m\<bar> \<le> 2 ^ 53" for m
    using that by (intro rnd_exact [of _ m "- 2"]) (simp_all add: power_int_minus)
  have a: "rnd (1 / 4) = 1 / 4" and r: "rnd (3 / 4) = 3 / 4" "rnd (5 / 4) = 5 / 4"
    using q [of 1] q [of 3] q [of 5] by simp_all
  have "jitter_factor (1 / 2) x = rnd (rnd (1 - rnd (1 / 4)) + x)" by (simp add: jitter_factor_def)
  also have "1 - rnd (1 / 4) = 3 / 4" unfolding a by simp
  finally have "jitter_factor (1 / 2) x = rnd (3 / 4 + x)" unfolding r .
  then show "3 / 4 \<le> jitter_factor (1 / 2) x" and "jitter_factor (1 / 2) x \<le> 5 / 4"
    using r assms rnd_mono [of "3 / 4" "3 / 4 + x"] rnd_mono [of "3 / 4 + x" "5 / 4"] by simp_all
qed

lemma first_delay:
  assumes "0 \<le> x" and "x \<le> 1 / 2"
    and "b = new_Backoff \<lparr>bc_initial = from_secs 10, bc_max = from_secs 300, bc_jitter = Fin (1 / 2)\<rparr>"
  shows "\<exists>d b'. next_delay (\<lambda>g hi. (x, g)) b () = Some (d, b', ()) \<and> 7500 \<le> as_millis d \<and> as_millis d \<le> 12500"
proof -
  let ?f = "jitter_factor (1 / 2) x"
  have f: "3 / 4 \<le> ?f" "?f \<le> 5 / 4" using half_jitter_factor [OF assms(1,2)] by auto
  have c: "capped b = 10000" and m: "as_millis (bc_max (bo_cfg b)) = 300000"
    by (simp_all add: assms(3) capped_def new_Backoff_def as_millis_def from_secs_def saturating_pow2_def
        saturating_mul128_def)
  have "7500 \<le> rnd (10000 * ?f) \<and> rnd (10000 * ?f) \<le> 12500"
    using f64.fl_between [of 15000 "10000 * ?f" 25000] f by simp
  then have j: "7500 \<le> jittered b ?f \<and> jittered b ?f \<le> 12500"
    using f64.fl_int [of 10000] f64.fl_int [of 300000] by (simp add: jittered_def c m)
  then have "unat (f64_as_u64 (jittered b ?f)) = nat \<lfloor>jittered b ?f\<rfloor>"
    by (intro unat_f64_as_u64) simp_all
  with j have "7500 \<le> unat (f64_as_u64 (jittered b ?f)) \<and> unat (f64_as_u64 (jittered b ?f)) \<le> 12500"
    by (simp add: le_nat_iff le_floor_iff nat_le_iff floor_le_iff)
  moreover have "bc_jitter (bo_cfg b) = Fin (1 / 2)" by (simp add: assms(3) new_Backoff_def)
  ultimately show ?thesis by (simp add: next_delay_def)
qed

lemma backoff_tests:
  "0 \<le> drawn \<Longrightarrow> drawn \<le> 1 / 2 \<Longrightarrow> first_delay_respects_jitter_range drawn"
  delay_grows_exponentially_then_caps reset_returns_to_initial
proof -
  let ?c = "new_Backoff no_jitter"
  show "0 \<le> drawn \<Longrightarrow> drawn \<le> 1 / 2 \<Longrightarrow> first_delay_respects_jitter_range drawn"
    using first_delay [of drawn, OF _ _ refl]
    by (auto simp: first_delay_respects_jitter_range_def as_millis_def from_secs_def)
  have b: "bo_cfg ?c = no_jitter" "bo_attempt ?c = attempts 0"
    by (simp_all add: new_Backoff_def)
  show delay_grows_exponentially_then_caps
    unfolding delay_grows_exponentially_then_caps_def
    using delays_from_exact [OF b, of 3] delays_from_exact [of "?c\<lparr>bo_attempt := attempts 3\<rparr>" 3 20]
      delays_from_exact [of "?c\<lparr>bo_attempt := attempts 23\<rparr>" 23 1] b
    by (simp add: upt_conv_Cons from_millis_def from_secs_def del: delays_from.simps)
  show reset_returns_to_initial
    unfolding reset_returns_to_initial_def
    using delays_from_exact [OF b, of 2] delays_from_exact [of "reset ?c" 0 1] b
    by (simp add: upt_conv_Cons from_millis_def from_secs_def reset_def new_Backoff_def del: delays_from.simps)
qed

section \<open>The configuration\<close>

text \<open>The tables of the two TOML texts of the tests.\<close>

definition FULL_CONFIG :: raw_config where
  "FULL_CONFIG =
     \<lparr>raw_imap_table = Some \<lparr>ri_host = Some ''imap.example.com'', ri_port = Some 993,
        ri_username = Some ''user@example.com'', ri_auth_method = Some Plain, ri_password = Some ''secret'',
        ri_password_command = None, ri_token_command = None, ri_tls_mode = Some Implicit, ri_mailbox = None\<rparr>,
      raw_sieve_table = Some \<lparr>rs_script_path = Some ''/etc/imap-sieve/rules.sieve'', rs_watch = Some True\<rparr>,
      raw_daemon_table = Some \<lparr>rd_batch_size = Some 10, rd_reconnect_delay = Some 5,
        rd_max_reconnect_delay = Some 300, rd_reconnect_jitter = Some (Fin (1 / 2)), rd_state_dir = None\<rparr>,
      raw_logging_table = Some \<lparr>rl_level = Some ''info'', rl_file = None\<rparr>,
      raw_smtp_table = Some \<lparr>rm_host = Some ''smtp.example.com'', rm_port = Some 587,
        rm_username = Some ''user@example.com'', rm_password = Some ''secret'', rm_password_command = None,
        rm_starttls = Some True\<rparr>\<rparr>"

definition minimal_tables :: raw_config where
  "minimal_tables =
     \<lparr>raw_imap_table = Some \<lparr>ri_host = Some ''imap.example.com'', ri_port = Some 993,
        ri_username = Some ''u'', ri_auth_method = None, ri_password = Some ''p'',
        ri_password_command = None, ri_token_command = None, ri_tls_mode = None, ri_mailbox = None\<rparr>,
      raw_sieve_table = Some \<lparr>rs_script_path = Some ''rules.sieve'', rs_watch = None\<rparr>,
      raw_daemon_table = None, raw_logging_table = None, raw_smtp_table = None\<rparr>"

definition parses_full_config :: bool where
  "parses_full_config \<longleftrightarrow>
     (case deserialize FULL_CONFIG of
        Inl _ \<Rightarrow> False
      | Inr cfg \<Rightarrow>
          ic_host (cfg_imap cfg) = ''imap.example.com'' \<and> ic_port (cfg_imap cfg) = 993 \<and>
          ic_auth_method (cfg_imap cfg) = Plain \<and>
          sc_script_path (cfg_sieve cfg) = ''/etc/imap-sieve/rules.sieve'' \<and> sc_watch (cfg_sieve cfg) \<and>
          dc_batch_size (cfg_daemon cfg) = 10 \<and> lc_level (cfg_logging cfg) = ''info'' \<and>
          cfg_smtp cfg \<noteq> None)"

definition defaults_apply_when_omitted :: bool where
  "defaults_apply_when_omitted \<longleftrightarrow>
     (case deserialize minimal_tables of
        Inl _ \<Rightarrow> False
      | Inr cfg \<Rightarrow>
          ic_auth_method (cfg_imap cfg) = Plain \<and> ic_tls_mode (cfg_imap cfg) = Implicit \<and>
          \<not> sc_watch (cfg_sieve cfg) \<and> dc_batch_size (cfg_daemon cfg) = 10 \<and>
          dc_reconnect_delay (cfg_daemon cfg) = 5 \<and> dc_max_reconnect_delay (cfg_daemon cfg) = 300 \<and>
          dc_reconnect_jitter (cfg_daemon cfg) = Fin (1 / 2) \<and>
          lc_level (cfg_logging cfg) = ''info'' \<and> cfg_smtp cfg = None)"

definition password_fixture :: "string option \<Rightarrow> string option \<Rightarrow> ImapConfig" where
  "password_fixture password command =
     \<lparr>ic_host = ''h'', ic_port = 993, ic_username = ''u'', ic_auth_method = Plain, ic_password = password,
      ic_password_command = command, ic_token_command = None, ic_tls_mode = Implicit, ic_mailbox = ''INBOX''\<rparr>"

text \<open>A shell that knows the one command of the test.\<close>

definition printf_shell :: runner where
  "printf_shell program arguments =
     (if program = ''sh'' \<and> arguments = [''-c'', ''printf from-cmd'']
      then Inr \<lparr>out_success = True, out_status = ''exit status: 0'', out_stdout = ''from-cmd'', out_stderr = []\<rparr>
      else Inl ''No such file or directory'')"

definition resolve_password_returns_static_password :: bool where
  "resolve_password_returns_static_password \<longleftrightarrow>
     imap_resolve_password False printf_shell (password_fixture (Some ''static'') None) = Inr ''static''"

definition resolve_password_runs_command :: bool where
  "resolve_password_runs_command \<longleftrightarrow>
     imap_resolve_password False printf_shell (password_fixture None (Some ''printf from-cmd'')) = Inr ''from-cmd''"

lemma config_tests:
  parses_full_config defaults_apply_when_omitted resolve_password_returns_static_password
  resolve_password_runs_command
  by code_simp+

section \<open>\<open>sieve_engine.rs\<close>\<close>

text \<open>
  The tests compile a script with \<open>sieve-rs\<close>. In its place stands a crate that knows a table of
  scripts, each with the events it emits for a message; the events are those of RFC 5228 and of the
  tests' comments: an implicit or explicit keep is one \<open>Keep\<close> event, \<open>fileinto :copy\<close> leaves the
  implicit keep to the end of the script, a \<open>fileinto\<close>, \<open>discard\<close> or \<open>reject\<close> cancels it, and the
  flags added before an action come with it. An instance is the message and the events left.
\<close>

definition scripted :: "(string \<times> (bytes \<Rightarrow> Event list)) list \<Rightarrow> (bytes \<times> Event list, bytes \<Rightarrow> Event list) SieveRs" where
  "scripted table =
     \<lparr>rs_compile = (\<lambda>src. case map_of table src of None \<Rightarrow> Inl ''unexpected token'' | Some p \<Rightarrow> Inr p),
      rs_filter = (\<lambda>raw. (raw, [])),
      rs_set_envelope = (\<lambda>_ _ i. i),
      rs_run = (\<lambda>input i.
        case (case input of InputScript _ p \<Rightarrow> p (fst i) | InputTrue \<Rightarrow> snd i) of
          [] \<Rightarrow> (None, (fst i, []))
        | ev # evs \<Rightarrow> (Some (Inr ev), (fst i, evs)))\<rparr>"

text \<open>A script of the table emits its events for the message; the engine finishes their actions.\<close>

lemma scripted_emits_rest: "emits (scripted table) InputTrue (raw, evs) evs None"
  by (induction evs) (auto intro: emits.intros simp: scripted_def)

lemma scripted_emits: "emits (scripted table) (InputScript name p) (raw, rest) (p raw) None"
proof (cases "p raw")
  case Nil
  then show ?thesis by (auto intro: emits.ends simp: scripted_def)
next
  case (Cons ev evs)
  then have "rs_run (scripted table) (InputScript name p) (raw, rest) = (Some (Inr ev), (raw, evs))"
    by (simp add: scripted_def)
  from emits.emit [OF this scripted_emits_rest] Cons show ?thesis by simp
qed

lemma scripted_start: "fst (start_instance (scripted table) ctx raw) = raw"
proof -
  have "foldl (\<lambda>i to. rs_set_envelope (scripted table) EnvelopeTo to i) i tos = i" for i tos
    by (induction tos) (simp_all add: scripted_def)
  then show ?thesis
    by (simp add: start_instance_def scripted_def Let_def split: option.split)
qed

lemma scripted_evaluate:
  "evaluate (sieve_engine_impl (scripted table)) p ctx =
     (case msg_raw ctx of
        None \<Rightarrow> Inl (Runtime ''MessageContext.raw is required'')
      | Some raw \<Rightarrow> Inr (finish (concat (map actions_of (p raw)))))"
proof (cases "msg_raw ctx")
  case None
  then show ?thesis by (simp add: sieve_engine_impl_def evaluate_impl_def)
next
  case (Some raw)
  obtain rest where "start_instance (scripted table) ctx raw = (raw, rest)"
    using scripted_start [of table ctx raw] by (metis prod.collapse)
  with evaluate_impl_emits [OF Some, of "scripted table" p "p raw" None] scripted_emits [of table]
  show ?thesis by (simp add: sieve_engine_impl_def Some)
qed

text \<open>The scripts of the tests, and what they emit.\<close>

definition quoted :: "string \<Rightarrow> string" where
  "quoted s = CHR 0x22 # s @ [CHR 0x22]"

definition requires :: "string \<Rightarrow> string" where
  "requires extension = ''require '' @ quoted extension @ '';'' @ [LF]"

fun has_word :: "string \<Rightarrow> string \<Rightarrow> bool" where
  "has_word w [] \<longleftrightarrow> w = []"
| "has_word w (c # s) \<longleftrightarrow> take (length w) (c # s) = w \<or> has_word w s"

definition spam_script :: string where
  "spam_script = requires ''fileinto'' @ ''if header :contains '' @ quoted ''Subject'' @ '' '' @ quoted ''spam'' @
     '' { fileinto '' @ quoted ''Junk'' @ ''; }''"

definition copy_script :: string where
  "copy_script = requires ''fileinto'' @ requires ''copy'' @ ''fileinto :copy '' @ quoted ''Archive'' @ '';''"

definition create_script :: string where
  "create_script = requires ''fileinto'' @ requires ''mailbox'' @ ''fileinto :create '' @ quoted ''NewFolder'' @ '';''"

definition flag_keep_script :: string where
  "flag_keep_script = requires ''imap4flags'' @ ''addflag '' @ quoted ([CHR 0x5C, CHR 0x5C] @ ''Seen'') @ '';'' @ [LF] @ ''keep;''"

definition flag_file_script :: string where
  "flag_file_script = requires ''fileinto'' @ requires ''imap4flags'' @
     ''addflag '' @ quoted ([CHR 0x5C, CHR 0x5C] @ ''Flagged'') @ '';'' @ [LF] @ ''fileinto '' @ quoted ''Important'' @ '';''"

definition mixed_script :: string where
  "mixed_script = requires ''fileinto'' @ requires ''copy'' @ ''fileinto '' @ quoted ''Log'' @ '';'' @ [LF] @
     ''fileinto :copy '' @ quoted ''Archive'' @ '';''"

definition reject_script :: string where
  "reject_script = requires ''reject'' @ ''reject '' @ quoted ''message not accepted'' @ '';''"

definition script_table :: "(string \<times> (bytes \<Rightarrow> Event list)) list" where
  "script_table =
     [(''keep;'', \<lambda>_. [EvKeep []]),
      (''discard;'', \<lambda>_. [EvDiscard]),
      (spam_script, \<lambda>raw. if has_word ''spam'' raw then [EvFileInto ''Junk'' [] False] else [EvKeep []]),
      (copy_script, \<lambda>_. [EvFileInto ''Archive'' [] False, EvKeep []]),
      (create_script, \<lambda>_. [EvFileInto ''NewFolder'' [] True]),
      (flag_keep_script, \<lambda>_. [EvKeep [CHR 0x5C # ''Seen'']]),
      (flag_file_script, \<lambda>_. [EvFileInto ''Important'' [CHR 0x5C # ''Flagged''] False]),
      (mixed_script, \<lambda>_. [EvFileInto ''Log'' [] False, EvFileInto ''Archive'' [] False]),
      (reject_script, \<lambda>_. [EvReject ''message not accepted''])]"

definition test_engine :: "(bytes \<Rightarrow> Event list) SieveEngine" where
  "test_engine = sieve_engine_impl (scripted script_table)"

definition engine_ctx :: "string \<Rightarrow> MessageContext" where
  "engine_ctx subject =
     (let raw = ''Subject: '' @ subject @ CRLF @ ''From: alice@example.com'' @ CRLF @ ''To: bob@example.com'' @
                CRLF @ CRLF @ ''body''
      in \<lparr>msg_uid = 1, msg_mailbox = ''INBOX'',
          msg_headers = [''subject'' \<mapsto> subject, ''from'' \<mapsto> ''alice@example.com'', ''to'' \<mapsto> ''bob@example.com''],
          msg_envelope_from = Some ''alice@example.com'', msg_envelope_to = [''bob@example.com''],
          msg_raw = Some raw, msg_flags = [], msg_size = of_nat (length raw)\<rparr>)"

text \<open>Compile a script, evaluate it on a message with a subject, and look at the actions.\<close>

definition test_actions :: "string \<Rightarrow> string \<Rightarrow> SieveAction list option" where
  "test_actions script subject =
     (case compile test_engine script of
        Inl _ \<Rightarrow> None
      | Inr compiled \<Rightarrow>
          (case evaluate test_engine compiled (engine_ctx subject) of Inl _ \<Rightarrow> None | Inr actions \<Rightarrow> Some actions))"

lemma test_engine_compile:
  "compile test_engine script =
     (case map_of script_table script of None \<Rightarrow> Inl (Compile ''unexpected token'') | Some p \<Rightarrow> Inr p)"
  by (simp add: test_engine_def sieve_engine_impl_def compile_impl_def scripted_def split: option.split)

lemmas test_engine_evaluate = scripted_evaluate [of script_table, folded test_engine_def]

lemma test_actions_events [code]:
  "test_actions script subject =
     map_option (\<lambda>p. finish (concat (map actions_of (p (the (msg_raw (engine_ctx subject)))))))
       (map_of script_table script)"
proof -
  obtain raw where "msg_raw (engine_ctx subject) = Some raw"
    by (simp add: engine_ctx_def Let_def)
  then show ?thesis
    by (auto simp: test_actions_def test_engine_compile test_engine_evaluate split: option.split)
qed

definition keep_when_no_match :: bool where
  "keep_when_no_match \<longleftrightarrow>
     (case test_actions ''keep;'' ''anything'' of None \<Rightarrow> False | Some actions \<Rightarrow> Keep \<in> set actions)"

definition fileinto_on_subject_match :: bool where
  "fileinto_on_subject_match \<longleftrightarrow>
     (case test_actions spam_script ''buy spam now'' of
        None \<Rightarrow> False
      | Some actions \<Rightarrow> list_ex (\<lambda>a. case a of FileInto mailbox _ _ \<Rightarrow> mailbox = ''Junk'' | _ \<Rightarrow> False) actions)"

definition discard_action_returned :: bool where
  "discard_action_returned \<longleftrightarrow>
     (case test_actions ''discard;'' ''x'' of None \<Rightarrow> False | Some actions \<Rightarrow> Discard \<in> set actions)"

definition invalid_script_returns_compile_error :: bool where
  "invalid_script_returns_compile_error \<longleftrightarrow>
     (case compile test_engine ''this is not sieve'' of Inl (Compile _) \<Rightarrow> True | _ \<Rightarrow> False)"

definition fileinto_copy_sets_copy_flag :: bool where
  "fileinto_copy_sets_copy_flag \<longleftrightarrow>
     (case test_actions copy_script ''anything'' of
        None \<Rightarrow> False
      | Some actions \<Rightarrow>
          (case List.find is_FileInto actions of Some (FileInto _ copy _) \<Rightarrow> copy | _ \<Rightarrow> False) \<and>
          Keep \<notin> set actions)"

definition fileinto_create_sets_create_flag :: bool where
  "fileinto_create_sets_create_flag \<longleftrightarrow>
     (case test_actions create_script ''anything'' of
        None \<Rightarrow> False
      | Some actions \<Rightarrow>
          (case List.find is_FileInto actions of Some (FileInto _ _ create) \<Rightarrow> create | _ \<Rightarrow> False))"

definition imap4flags_set_on_keep :: bool where
  "imap4flags_set_on_keep \<longleftrightarrow>
     (case test_actions flag_keep_script ''anything'' of
        None \<Rightarrow> False
      | Some actions \<Rightarrow>
          list_ex (\<lambda>a. case a of SetFlag flags \<Rightarrow> CHR 0x5C # ''Seen'' \<in> set flags | _ \<Rightarrow> False) actions \<and>
          Keep \<in> set actions)"

definition imap4flags_set_on_fileinto :: bool where
  "imap4flags_set_on_fileinto \<longleftrightarrow>
     (case test_actions flag_file_script ''anything'' of
        None \<Rightarrow> False
      | Some actions \<Rightarrow>
          list_ex (\<lambda>a. case a of SetFlag flags \<Rightarrow> CHR 0x5C # ''Flagged'' \<in> set flags | _ \<Rightarrow> False) actions \<and>
          list_ex (\<lambda>a. case a of FileInto mailbox _ _ \<Rightarrow> mailbox = ''Important'' | _ \<Rightarrow> False) actions)"

definition mixed_copy_fileinto_known_limitation :: bool where
  "mixed_copy_fileinto_known_limitation \<longleftrightarrow>
     (case test_actions mixed_script ''anything'' of
        None \<Rightarrow> False
      | Some actions \<Rightarrow>
          (case List.find (\<lambda>a. case a of FileInto mailbox _ _ \<Rightarrow> mailbox = ''Log'' | _ \<Rightarrow> False) actions of
             Some (FileInto _ copy _) \<Rightarrow> \<not> copy | _ \<Rightarrow> False) \<and>
          (case List.find (\<lambda>a. case a of FileInto mailbox _ _ \<Rightarrow> mailbox = ''Archive'' | _ \<Rightarrow> False) actions of
             Some (FileInto _ copy _) \<Rightarrow> \<not> copy | _ \<Rightarrow> False) \<and>
          Keep \<notin> set actions)"

definition reject_action_returned :: bool where
  "reject_action_returned \<longleftrightarrow>
     (case test_actions reject_script ''anything'' of
        None \<Rightarrow> False
      | Some actions \<Rightarrow>
          list_ex (\<lambda>a. case a of Reject _ \<Rightarrow> True | _ \<Rightarrow> False) actions \<and> Keep \<notin> set actions)"

lemma engine_tests:
  keep_when_no_match fileinto_on_subject_match discard_action_returned
  invalid_script_returns_compile_error fileinto_copy_sets_copy_flag fileinto_create_sets_create_flag
  imap4flags_set_on_keep imap4flags_set_on_fileinto mixed_copy_fileinto_known_limitation
  reject_action_returned
  by code_simp+

section \<open>\<open>script_loader.rs\<close>\<close>

text \<open>
  The same engine with the source text as the compiled script, so that two scripts can be told
  apart: the tests compare pointers.
\<close>

definition text_engine :: "string SieveEngine" where
  "text_engine =
     \<lparr>compile = (\<lambda>src. case compile test_engine src of Inl e \<Rightarrow> Inl e | Inr _ \<Rightarrow> Inr src),
      evaluate = (\<lambda>src ctx. case compile test_engine src of Inl e \<Rightarrow> Inl e | Inr p \<Rightarrow> evaluate test_engine p ctx)\<rparr>"

lemma text_engine_events [code]:
  "text_engine =
     \<lparr>compile = (\<lambda>src. case map_of script_table src of
         None \<Rightarrow> Inl (Compile ''unexpected token'') | Some _ \<Rightarrow> Inr src),
      evaluate = (\<lambda>src ctx. case map_of script_table src of
         None \<Rightarrow> Inl (Compile ''unexpected token'')
       | Some p \<Rightarrow> (case msg_raw ctx of
           None \<Rightarrow> Inl (Runtime ''MessageContext.raw is required'')
         | Some raw \<Rightarrow> Inr (finish (concat (map actions_of (p raw))))))\<rparr>"
  by (auto simp: text_engine_def test_engine_compile test_engine_evaluate fun_eq_iff split: option.split)

definition rules_sieve :: string where
  "rules_sieve = ''/d/rules.sieve''"

definition rules_are :: "string \<Rightarrow> reader" where
  "rules_are text path = (if path = rules_sieve then Inr text else Inl (NotFound ''No such file or directory''))"

definition load_rules :: "string \<Rightarrow> LoaderError + string ScriptLoader" where
  "load_rules text = load_script Some (rules_are text) text_engine rules_sieve"

definition loads_initial_script :: bool where
  "loads_initial_script \<longleftrightarrow> (case load_rules ''keep;'' of Inr _ \<Rightarrow> True | Inl _ \<Rightarrow> False)"

definition reload_swaps_compiled_script :: bool where
  "reload_swaps_compiled_script \<longleftrightarrow>
     (case load_rules ''keep;'' of
        Inl _ \<Rightarrow> False
      | Inr loader \<Rightarrow>
          (case reload (rules_are ''discard;'') loader of
             (r, loader') \<Rightarrow> r = Inr () \<and> current loader \<noteq> current loader'))"

definition reload_compile_error_keeps_old_script :: bool where
  "reload_compile_error_keeps_old_script \<longleftrightarrow>
     (case load_rules ''keep;'' of
        Inl _ \<Rightarrow> False
      | Inr loader \<Rightarrow>
          (case reload (rules_are ''garbage that will not compile'') loader of
             (r, loader') \<Rightarrow> r \<noteq> Inr () \<and> current loader = current loader'))"

text \<open>The save by rename is seen as an event for the temporary file and one for the script.\<close>

definition watcher_reloads_on_file_change :: bool where
  "watcher_reloads_on_file_change \<longleftrightarrow>
     (case load_rules ''keep;'' of
        Inl _ \<Rightarrow> False
      | Inr loader \<Rightarrow>
          (case spawn_watcher (Inr ()) (\<lambda>_. Inr ()) (Inr ()) loader of
             Inl _ \<Rightarrow> False
           | Inr (dir, loop) \<Rightarrow>
               dir = ''/d'' \<and>
               current (loop [(Inr \<lparr>ev_paths = [rules_sieve @ ''.tmp''], ev_kind = Create\<rparr>, rules_are ''keep;''),
                              (Inr \<lparr>ev_paths = [rules_sieve @ ''.tmp'', rules_sieve], ev_kind = Modify\<rparr>,
                               rules_are ''discard;'')]) \<noteq> current loader))"

lemma loader_tests:
  loads_initial_script reload_swaps_compiled_script reload_compile_error_keeps_old_script
  watcher_reloads_on_file_change
  by code_simp+

end
