(* ===== verification/Loop_Tests.thy ===== *)
theory Loop_Tests
  imports Unit_Tests
begin

text \<open>
  The tests of \<open>processor.rs\<close> and of the session and supervisor in \<open>session.rs\<close>, as in theory
  \<open>Unit_Tests\<close>: fixtures, calls and assertions of each test function, and lemmas that the model passes
  them. The world is the two fakes, the store and the disk; the shutdown of a test is its schedule.
\<close>

section \<open>\<open>processor.rs\<close>\<close>

definition mail_msg :: "u32 \<Rightarrow> string \<Rightarrow> MessageContext" where
  "mail_msg uid subject =
     \<lparr>msg_uid = uid, msg_mailbox = ''INBOX'', msg_headers = [''subject'' \<mapsto> subject],
      msg_envelope_from = Some ''a@b'', msg_envelope_to = [''c@d''],
      msg_raw = Some (''Subject: '' @ subject @ CRLF @ CRLF @ ''body''), msg_flags = [], msg_size = 0\<rparr>"

definition no_raw :: "u32 \<Rightarrow> MessageContext" where
  "no_raw uid = (mail_msg uid ''x'')\<lparr>msg_raw := None\<rparr>"

type_synonym fakes = "FakeImap \<times> FakeSender"

definition test_processor :: "string \<Rightarrow> (fakes, string) MessageProcessor" where
  "test_processor script =
     \<lparr>mp_engine = text_engine, mp_current = (\<lambda>_. script), mp_imap = both_imap, mp_smtp = Some both_sender,
      mp_caps = fk_caps new_FakeImap, mp_mailbox = ''INBOX'', mp_batch_size = 100,
      mp_stamp = (\<lambda>w. ((''date'', ''uuid''), w)), mp_serde = strict_serde\<rparr>"

text \<open>A fresh store, seeded as the test seeds it, and a batch over the mail of the test.\<close>

definition seeded :: "(State \<Rightarrow> State) option \<Rightarrow> StateStore \<times> disk" where
  "seeded seed =
     (case seed of None \<Rightarrow> open_temp temp_dir | Some f \<Rightarrow> snd (update strict_serde f (open_temp temp_dir)))"

definition batch_fixture ::
    "string \<Rightarrow> MessageContext list \<Rightarrow> u32 option \<Rightarrow> (CoreError + ProcessingResult list) \<times> fakes world" where
  "batch_fixture script mail seed =
     run_batch (test_processor script)
       ((new_FakeImap\<lparr>fk_fetch_responses := mail\<rparr>, new_FakeSender),
        seeded (map_option (\<lambda>u s. s\<lparr>st_last_seen_uid := Some u\<rparr>) seed))"

definition processes_batch_and_updates_state :: bool where
  "processes_batch_and_updates_state \<longleftrightarrow>
     (case batch_fixture spam_script [mail_msg 10 ''buy spam'', mail_msg 11 ''hello''] (Some 9) of
        (r, ((imap, _), store, _)) \<Rightarrow>
          (case r of Inl _ \<Rightarrow> False | Inr results \<Rightarrow> length results = 2) \<and>
          st_last_seen_uid (state store) = Some 11 \<and>
          Move 10 ''Junk'' \<in> set (fake_ops imap) \<and> length (fake_ops imap) = 1)"

definition sieve_error_falls_back_to_keep_without_advancing_state :: bool where
  "sieve_error_falls_back_to_keep_without_advancing_state \<longleftrightarrow>
     (case batch_fixture ''keep;'' [no_raw 1] (Some 0) of
        (r, (_, store, _)) \<Rightarrow>
          (case r of Inr (p # _) \<Rightarrow> (case pr_status p of SieveError _ \<Rightarrow> True | _ \<Rightarrow> False) | _ \<Rightarrow> False) \<and>
          st_last_seen_uid (state store) = Some 0)"

definition uninitialized_state_returns_error :: bool where
  "uninitialized_state_returns_error \<longleftrightarrow>
     (case batch_fixture ''keep;'' [] None of (Inl (Imap _), _) \<Rightarrow> True | _ \<Rightarrow> False)"

definition batch_stops_on_first_failure_for_at_least_once_retry :: bool where
  "batch_stops_on_first_failure_for_at_least_once_retry \<longleftrightarrow>
     (case batch_fixture ''keep;'' [mail_msg 10 ''ok'', no_raw 11, mail_msg 12 ''ok''] (Some 9) of
        (r, (_, store, _)) \<Rightarrow>
          (case r of
             Inr [p, q] \<Rightarrow> pr_status p = Ok \<and> (case pr_status q of SieveError _ \<Rightarrow> True | _ \<Rightarrow> False)
           | _ \<Rightarrow> False) \<and>
          st_last_seen_uid (state store) = Some 10)"

lemma processor_tests:
  processes_batch_and_updates_state sieve_error_falls_back_to_keep_without_advancing_state
  uninitialized_state_returns_error batch_stops_on_first_failure_for_at_least_once_retry
  by code_simp+

section \<open>The session\<close>

text \<open>
  The shutdown comes after some turns of the loop, the number of which depends on timing; the tests
  run with no turn and with two.
\<close>

definition test_session :: "nat \<Rightarrow> (fakes, string) SessionManager" where
  "test_session timeout_ms =
     \<lparr>sm_engine = text_engine, sm_current = (\<lambda>_. ''keep;''), sm_imap = both_imap, sm_smtp = Some both_sender,
      sm_mailbox = ''INBOX'', sm_idle_timeout = timeout_ms * 1000000, sm_batch_size = 100,
      sm_stamp = (\<lambda>w. ((''date'', ''uuid''), w)), sm_serde = strict_serde\<rparr>"

definition session_fixture ::
    "MailboxStatus \<Rightarrow> MessageContext list \<Rightarrow> (State \<Rightarrow> State) option \<Rightarrow> nat
       \<Rightarrow> (CoreError + unit) option \<times> State" where
  "session_fixture status mail seed turns =
     (let out = session_run (test_session 60000) (replicate turns False @ [True])
                  ((new_FakeImap\<lparr>fk_status := status, fk_fetch_responses := mail\<rparr>, new_FakeSender), seeded seed)
      in (fst (fst out), state (fst (snd (snd out)))))"

definition processes_pending_then_shuts_down :: "nat \<Rightarrow> bool" where
  "processes_pending_then_shuts_down turns \<longleftrightarrow>
     (case session_fixture ((fk_status new_FakeImap)\<lparr>mb_uidnext := 3\<rparr>) [mail_msg 1 ''x'', mail_msg 2 ''x''] None turns of
        (r, s) \<Rightarrow> r = Some (Inr ()) \<and> st_last_seen_uid s = Some 2)"

definition uidvalidity_change_returns_error :: bool where
  "uidvalidity_change_returns_error \<longleftrightarrow>
     (case session_fixture ((fk_status new_FakeImap)\<lparr>mb_uidvalidity := 99\<rparr>) []
             (Some (\<lambda>s. s\<lparr>st_uidvalidity := Some 7\<rparr>)) 0 of
        (r, s) \<Rightarrow> r = Some (Inl (UidValidityChanged 7 99)))"

definition first_run_seeds_last_seen_uid_from_uidnext :: bool where
  "first_run_seeds_last_seen_uid_from_uidnext \<longleftrightarrow>
     (case session_fixture ((fk_status new_FakeImap)\<lparr>mb_uidnext := 43, mb_exists := 42\<rparr>) [] None 0 of
        (r, s) \<Rightarrow> r = Some (Inr ()) \<and> st_last_seen_uid s = Some 42)"

text \<open>On a disk without faults an update of the tests succeeds; \<open>after_update\<close> is the store it leaves.\<close>

definition quiet :: "StateStore \<times> disk \<Rightarrow> bool" where
  "quiet st \<longleftrightarrow> (\<forall>n. fault (snd st) n = None)"

definition after_update :: "(State \<Rightarrow> State) \<Rightarrow> StateStore \<times> disk \<Rightarrow> StateStore \<times> disk" where
  "after_update f st = snd (update strict_serde f st)"

lemma after_update [simp]:
  "ss_state (fst (after_update f st)) = f (ss_state (fst st))" "quiet (after_update f st) = quiet st"
  by (simp_all add: after_update_def quiet_def)

lemma update_quiet [simp]: "quiet st \<Longrightarrow> update strict_serde f st = (Inr (), after_update f st)"
proof -
  assume q: "quiet st"
  obtain b where "to_vec strict_serde (f (ss_state (fst st))) = Inr b"
    by (simp add: strict_serde_def full_serde_def)
  with update_no_fault [of "snd st" strict_serde f "fst st" b] q show ?thesis
    by (auto simp: quiet_def after_update_def)
qed

lemma seeded [simp]:
  "quiet (seeded seed)"
  "ss_state (fst (seeded seed)) = (case seed of None \<Rightarrow> default_State | Some f \<Rightarrow> f default_State)"
proof -
  have "quiet (open_temp temp_dir)"
    unfolding open_temp_temp_dir by (simp add: quiet_def temp_dir_def)
  moreover have "ss_state (fst (open_temp temp_dir)) = default_State"
    unfolding open_temp_temp_dir by simp
  ultimately show "quiet (seeded seed)"
    "ss_state (fst (seeded seed)) = (case seed of None \<Rightarrow> default_State | Some f \<Rightarrow> f default_State)"
    by (simp_all add: seeded_def split: option.split)
qed

lemmas session_steps = session_run_def session_start_def check_uidvalidity_def seed_last_seen_def
  process_pending_def on_imap_def on_store_def persisted_def run_batch_def last_seen_def processor_def
  test_session_def both_imap_def on_fst_def fake_imap_def new_FakeImap_def bind_io_def ret_io_def
  record_select_def default_State_def state_def saturating_sub_def Let_def

text \<open>Without mail, a turn of the loop changes nothing.\<close>

lemma quiet_turn:
  assumes "fk_fetch_responses imap = []" and "last_seen ((imap, smtp), st) = Some u"
  shows "idle_turn (test_session t) caps ((imap, smtp), st) = (Inr (), ((imap, smtp), st))"
  using assms by (simp add: idle_turn_def session_steps)

lemma quiet_loop:
  assumes "fk_fetch_responses imap = []" and "last_seen ((imap, smtp), st) = Some u"
  shows "session_loop (test_session t) caps (replicate n False @ [True]) ((imap, smtp), st) =
           ((Some (Inr ()), []), ((imap, smtp), st))"
  using assms by (induction n) (simp_all add: quiet_turn)

lemma kept [simp]:
  "evaluate text_engine ''keep;'' (mail_msg u subject) = Inr [Keep]"
  "execute self ctx [Keep] w = (Inr (), w)"
  by (simp_all add: text_engine_events script_table_def mail_msg_def finish_def implicit_keep_def detect_copy_def
      execute_def bind_io_def)

lemma pending_start:
  "\<exists>imap st. session_start (test_session t)
       ((new_FakeImap\<lparr>fk_status := (fk_status new_FakeImap)\<lparr>mb_uidnext := 3\<rparr>,
                       fk_fetch_responses := [mail_msg 1 ''x'', mail_msg 2 ''x'']\<rparr>, new_FakeSender), seeded None) =
     (Inr (fk_caps new_FakeImap), ((imap, new_FakeSender), st)) \<and>
     fk_fetch_responses imap = [] \<and> last_seen ((imap, new_FakeSender), st) = Some 2"
  by (simp add: session_steps advance_to_def) (simp add: mail_msg_def max_def)

lemma pending_test: "processes_pending_then_shuts_down turns"
proof -
  obtain imap st where start: "session_start (test_session 60000)
       ((new_FakeImap\<lparr>fk_status := (fk_status new_FakeImap)\<lparr>mb_uidnext := 3\<rparr>,
                       fk_fetch_responses := [mail_msg 1 ''x'', mail_msg 2 ''x'']\<rparr>, new_FakeSender), seeded None) =
       (Inr (fk_caps new_FakeImap), ((imap, new_FakeSender), st))"
    and f: "fk_fetch_responses imap = []" and u: "last_seen ((imap, new_FakeSender), st) = Some 2"
    using pending_start [of 60000] by blast
  show ?thesis
    unfolding processes_pending_then_shuts_down_def session_fixture_def session_run_def start
    using u by (simp add: quiet_loop [OF f u] Let_def state_def last_seen_def)
qed

lemma session_tests:
  "processes_pending_then_shuts_down turns" uidvalidity_change_returns_error
  first_run_seeds_last_seen_uid_from_uidnext
proof -
  show "processes_pending_then_shuts_down turns" by (rule pending_test)
  show uidvalidity_change_returns_error
    unfolding uidvalidity_change_returns_error_def session_fixture_def
    by (simp add: session_steps throw_io_def)
  show first_run_seeds_last_seen_uid_from_uidnext
    unfolding first_run_seeds_last_seen_uid_from_uidnext_def session_fixture_def
    by (simp add: session_steps)
qed

section \<open>The supervisor\<close>

text \<open>
  The counting factory: its connections are counted in the outside world, and it makes a fresh fake
  once its first \<open>fail_first_n\<close> attempts have failed.
\<close>

type_synonym counted = "nat \<times> fakes"

definition on_fakes :: "(fakes, 'e, 'r) io \<Rightarrow> (counted, 'e, 'r) io" where
  "on_fakes m w = (case m (snd w) of (r, f) \<Rightarrow> (r, (fst w, f)))"

definition counted_imap :: "counted ImapClient" where
  "counted_imap =
     \<lparr>capabilities = on_fakes (capabilities both_imap),
      select = (\<lambda>m. on_fakes (select both_imap m)),
      fetch_uid_range = (\<lambda>m n s. on_fakes (fetch_uid_range both_imap m n s)),
      uid_move = (\<lambda>u t. on_fakes (uid_move both_imap u t)),
      uid_copy = (\<lambda>u t. on_fakes (uid_copy both_imap u t)),
      uid_store_flags = (\<lambda>u f fl. on_fakes (uid_store_flags both_imap u f fl)),
      uid_expunge = (\<lambda>us. on_fakes (uid_expunge both_imap us)),
      uid_create_mailbox = (\<lambda>m. on_fakes (uid_create_mailbox both_imap m)),
      idle = (\<lambda>t. on_fakes (idle both_imap t))\<rparr>"

definition counting_factory :: "nat \<Rightarrow> (counted, CoreError, unit) io" where
  "counting_factory fail_first_n w =
     (let n = fst w; w' = (Suc n, snd w) in
      if n < fail_first_n then (Inl (Imap (''simulated failure '' @ show_word (of_nat n :: u32))), w')
      else (Inr (), (Suc n, (new_FakeImap, snd (snd w)))))"

definition test_supervisor :: "(counted, string, unit) Supervisor" where
  "test_supervisor =
     \<lparr>su_connect = counting_factory 2,
      su_session =
        \<lparr>sm_engine = text_engine, sm_current = (\<lambda>_. ''keep;''), sm_imap = counted_imap,
         sm_smtp = Some \<lparr>send = (\<lambda>mail. on_fakes (send both_sender mail))\<rparr>,
         sm_mailbox = ''INBOX'', sm_idle_timeout = from_millis 100, sm_batch_size = 100,
         sm_stamp = (\<lambda>w. ((''date'', ''uuid''), w)), sm_serde = strict_serde\<rparr>,
      su_backoff_cfg = \<lparr>bc_initial = from_millis 10, bc_max = from_millis 50, bc_jitter = Fin 0\<rparr>,
      su_rng = (\<lambda>g hi. (0, g))\<rparr>"

text \<open>
  Two failed connections with their sleeps, a connection, some turns of the session, the shutdown.
\<close>

definition supervisor_retries_then_succeeds_then_shuts_down :: "nat \<Rightarrow> bool" where
  "supervisor_retries_then_succeeds_then_shuts_down turns \<longleftrightarrow>
     (let out = supervise test_supervisor (new_Backoff (su_backoff_cfg test_supervisor)) ()
                  ([False, False, False, False, False] @ replicate turns False @ [True]) []
                  ((0, (new_FakeImap, new_FakeSender)), seeded (Some (\<lambda>s. s\<lparr>st_last_seen_uid := Some 0\<rparr>)))
      in fst out = Some Graceful \<and> fst (snd out) = [from_millis 10, from_millis 20] \<and>
         fst (fst (snd (snd out))) = 3)"

lemma counted_turn:
  assumes "last_seen ((n, new_FakeImap, smtp), st) = Some u"
  shows "idle_turn (su_session test_supervisor) caps ((n, new_FakeImap, smtp), st) =
           (Inr (), ((n, new_FakeImap, smtp), st))"
  using assms
  by (simp add: idle_turn_def test_supervisor_def counted_imap_def on_fakes_def session_steps)

lemma counted_loop:
  assumes "last_seen ((n, new_FakeImap, smtp), st) = Some u"
  shows "session_loop (su_session test_supervisor) caps (replicate k False @ [True]) ((n, new_FakeImap, smtp), st) =
           ((Some (Inr ()), []), ((n, new_FakeImap, smtp), st))"
  using assms by (induction k) (simp_all add: counted_turn)

lemma counted_start:
  assumes "quiet st" and "ss_state (fst st) = default_State\<lparr>st_last_seen_uid := Some 0\<rparr>"
  shows "\<exists>st'. session_start (su_session test_supervisor) ((n, new_FakeImap, smtp), st) =
           (Inr (fk_caps new_FakeImap), ((n, new_FakeImap, smtp), st')) \<and>
           last_seen ((n, new_FakeImap, smtp), st') = Some 0"
  using assms
  by (simp add: test_supervisor_def counted_imap_def on_fakes_def session_steps)

lemma test_delays:
  assumes "bo_cfg b = su_backoff_cfg test_supervisor"
  shows "bo_attempt b = 0 \<Longrightarrow> next_delay (su_rng test_supervisor) b () =
           Some (from_millis 10, b\<lparr>bo_attempt := 1\<rparr>, ())"
    and "bo_attempt b = 1 \<Longrightarrow> next_delay (su_rng test_supervisor) b () =
           Some (from_millis 20, b\<lparr>bo_attempt := 2\<rparr>, ())"
  using assms next_delay_exact [of b "su_rng test_supervisor" "()" "()"]
  by (simp_all add: test_supervisor_def capped_def saturating_pow2_def saturating_mul128_def saturating_add_def)

lemma supervisor_tests: "supervisor_retries_then_succeeds_then_shuts_down turns"
proof -
  let ?st = "seeded (Some (\<lambda>s. s\<lparr>st_last_seen_uid := Some 0\<rparr>))"
  let ?b = "new_Backoff (su_backoff_cfg test_supervisor)"
  obtain st' where start: "session_start (su_session test_supervisor) ((3, new_FakeImap, new_FakeSender), ?st) =
      (Inr (fk_caps new_FakeImap), ((3, new_FakeImap, new_FakeSender), st'))"
    and seen: "last_seen ((3::nat, new_FakeImap, new_FakeSender), st') = Some 0"
    using counted_start [of ?st 3 new_FakeSender] by auto
  have run: "session_run (su_session test_supervisor) (replicate turns False @ [True])
      ((3, new_FakeImap, new_FakeSender), ?st) =
      ((Some (Inr ()), []), ((3, new_FakeImap, new_FakeSender), st'))"
    unfolding session_run_def start using counted_loop [OF seen] by simp
  have connect: "on_imap (su_connect test_supervisor) ((n, new_FakeImap, new_FakeSender), ?st) =
      (if n < 2 then Inl (Imap (''simulated failure '' @ show_word (of_nat n :: u32))) else Inr (), ((Suc n, new_FakeImap, new_FakeSender), ?st))" for n
    by (simp add: on_imap_def test_supervisor_def counting_factory_def)
  have b: "bo_cfg ?b = su_backoff_cfg test_supervisor" "bo_attempt ?b = 0"
    by (simp_all add: new_Backoff_def)
  note delays = test_delays(1) [OF b] test_delays(2) [of "?b\<lparr>bo_attempt := 1\<rparr>", simplified, OF b(1)]
  show ?thesis
    unfolding supervisor_retries_then_succeeds_then_shuts_down_def
    by (simp add: supervise.simps back_off.simps connect delays run Let_def numeral_2_eq_2 [symmetric])
qed

end
