(* ===== verification/Spec2Isabelle.thy ===== *)
theory Spec2Isabelle
  imports Daemon Delivery Loop_Tests
begin

text \<open>
  A verification library for the imap-sieve daemon: a program that waits for mail in an IMAP
  mailbox, evaluates a Sieve script on each new message and carries out the resulting actions
  over IMAP and SMTP.

  \<^bold>\<open>Parts and theories.\<close> Each theory models one part of the code and holds its lemmas and properties.

  \<^item> \<open>Prelude\<close>: word types, saturating arithmetic, state-and-error computations \<open>io\<close>, the
    combinators that compose them as \<open>?\<close> and early return do, the invariant combinator \<open>keeps\<close>.
  \<^item> \<open>Rust_Str\<close>, \<open>Utf8\<close>, \<open>F64\<close>: what the code uses of Rust's standard library. Strings are lists
    of bytes in UTF-8; \<open>trim\<close>, \<open>lines\<close>, \<open>split_once\<close> and the like work on them; \<open>from_utf8_lossy\<close>
    is the full lossy decoder; \<open>rnd\<close> rounds to binary64 (locale \<open>rounding\<close>).
  \<^item> \<open>Types\<close> (\<open>imap-sieve-core/src/types.rs\<close>): contexts, actions, results, errors, \<open>parse_headers\<close>.
  \<^item> \<open>Config\<close> (\<open>config/src/lib.rs\<close>): structs, serde defaults, \<open>load\<close>, \<open>validate\<close>, secrets.
  \<^item> \<open>State_Store\<close> (\<open>state.rs\<close>): \<open>open\<close>, \<open>update\<close> and the atomic write over a file system whose
    calls can fail, or stop in the middle of a write. Locale \<open>state_cell\<close>: what its clients rely on;
    locale \<open>store_evolution\<close>: a relation on stores that every update of a batch or session respects.
  \<^item> \<open>Imap_Client\<close> (\<open>imap_client.rs\<close>): the trait as a record of methods, the MOVE fallback, the fake
    client. Locale \<open>imap_frame\<close>: a preorder on worlds that every command about one message respects.
  \<^item> \<open>Async_Imap\<close> (\<open>imap_client.rs\<close>): connecting, and the production client over \<open>async-imap\<close>.
  \<^item> \<open>Smtp_Sender\<close> (\<open>smtp_sender.rs\<close>): the trait, the lettre sender, the fake. Locale \<open>mail_sender\<close>.
  \<^item> \<open>Sieve_Engine\<close> (\<open>sieve_engine.rs\<close>): the event loop and the clean-up of the actions, over
    \<open>sieve-rs\<close>. Locale \<open>sieve_engine\<close>: what every list of actions guarantees.
  \<^item> \<open>Action_Executor\<close> (\<open>action_executor.rs\<close>): \<open>execute\<close>, and its refinement of a \<open>plan\<close>.
  \<^item> \<open>Script_Loader\<close> (\<open>script_loader.rs\<close>): loading, reloading, the watcher. Locale \<open>script_source\<close>.
  \<^item> \<open>Processor\<close> (\<open>processor.rs\<close>): \<open>run_batch\<close>; the relations \<open>handled\<close> and \<open>ends\<close> say what a
    batch has done and how it ended.
  \<^item> \<open>Backoff\<close>, \<open>Session\<close>, \<open>Supervisor\<close> (\<open>session.rs\<close>): the delays, the session manager, and the
    reconnect loop \<open>supervise\<close>; its invariants are proved over the step relation \<open>sup_step\<close>, which
    reaches the same results.
  \<^item> \<open>Delivery\<close>: the messages beyond the recorded UID as a queue, on a server described by the
    documented laws of IMAP (\<open>imap_server\<close>, \<open>assigns_fresh_uids\<close>, \<open>move_removes\<close>); what batches and
    sessions do to it. It models no further code.
  \<^item> \<open>Daemon\<close> (\<open>imap-sieve/src/daemon.rs\<close>, \<open>main.rs\<close>): the subcommands, the assembly, the log's
    destination and the signal handlers.
  \<^item> \<open>Unit_Tests\<close>, \<open>Loop_Tests\<close>: the program's own unit tests as definitions, which the model passes.
  \<^item> \<open>Samples\<close>: inputs on which properties are evaluated.

  \<^bold>\<open>How the parts fit.\<close> The supervisor connects a client and runs a session on it; the session
  selects the mailbox, checks UIDVALIDITY, seeds the record on a first run, and runs a batch at
  start-up and after each IDLE event; a batch fetches, evaluates each message with the script in
  use, executes the actions and records the UID in the state store. The outside world (server,
  relay, clock) is a type variable that every operation takes and returns; a batch works on the
  world, the store and the disk.

  \<^bold>\<open>Parameters.\<close> Third-party crates are records of functions: \<open>Net\<close> and \<open>Crate\<close> (tokio, rustls,
  async-imap), \<open>Lettre\<close>, \<open>SieveRs\<close>, \<open>Serde\<close>, the TOML reader, the shell, the random generator. A
  property that relies on their behaviour says so as a hypothesis. Those about delivery assume
  success only of a client whose session is up (\<open>good\<close>), so that the production client, which
  fails for good once its session is lost, is an instance; theory \<open>Delivery\<close> evaluates the draining
  of a backlog with the production client and the production engine over a small crate.

  \<^bold>\<open>Bounds.\<close> Integers have their widths; \<open>u32\<close> additions wrap as in a release build (a debug build
  panics). The event loop of the engine is a partial function, \<open>None\<close> if it never returns; the trait
  method \<open>sieve_engine_impl\<close>, which must be total, makes a runtime error of that. \<open>select!\<close> is decided
  by a schedule, one entry for each time a wait is reached; a schedule that is used up stands for a
  program that still runs, and the properties of the supervisor hold for all schedules.

  \<^bold>\<open>What is shown.\<close> At-least-once delivery with respect to the recorded UID, and the shape of every
  batch; without CONDSTORE, a batch pops the queue of waiting messages, batches in a row handle each
  once, and a session drains a backlog; the record and UIDVALIDITY move forward only, in memory, on
  disk and over restarts; the state file is replaced atomically and is what the next start reads; an
  execution does what its plan says, to one message, and deletes last; a kept message stays; the
  engine's actions from the events; exits, shutdown and delays of the supervisor and the daemon;
  the header parser and the rejection notice; TLS before login; validation, secrets, the watcher.
  Shown as well is where the program falls short of that: no drain with CONDSTORE, the last message
  processed again when there is no new one, actions lost behind a move, a redirect without sender.

  \<^bold>\<open>Not modelled.\<close> The integration tests, which need a server in a container; the texts of log
  messages; clap's parsing of the command line beyond its subcommands and the default config path;
  the join error of the task that resolves the password; a failing removal of the temporary file and
  the durability that \<open>sync_all\<close> is for; \<open>.\<close> and \<open>..\<close> in paths.
\<close>

section \<open>Properties that span components\<close>

lemma discards_finish: "a \<in> set (finish acts) \<Longrightarrow> discards a \<Longrightarrow> a \<in> set acts"
proof -
  assume a: "a \<in> set (finish acts)" and d: "discards a"
  have "discards (set_copy b) = discards b" and "discards b \<Longrightarrow> set_copy b = b" for b
    by (cases b; simp)+
  with a d show "a \<in> set acts"
    by (auto simp: finish_def detect_copy_def implicit_keep_def split: if_splits)
qed

lemma discards_acts_of: "a \<in> set (acts_of evs) \<Longrightarrow> discards a \<Longrightarrow> \<exists>ev \<in> set evs. ev = EvDiscard \<or> (\<exists>r. ev = EvReject r)"
proof -
  have "a \<in> set (actions_of ev) \<Longrightarrow> discards a \<Longrightarrow> ev = EvDiscard \<or> (\<exists>r. ev = EvReject r)" for ev
    by (cases ev rule: actions_of.cases) (auto split: if_splits)
  then show "a \<in> set (acts_of evs) \<Longrightarrow> discards a \<Longrightarrow> \<exists>ev \<in> set evs. ev = EvDiscard \<or> (\<exists>r. ev = EvReject r)"
    by (induction evs) auto
qed

text \<open>
  C9. A message that its script keeps stays in its mailbox. If the script neither discards nor
  rejects it, and keeps it explicitly or files it nowhere, then what the executor does with the
  actions the engine returns contains no MOVE and no EXPUNGE: a filing next to an explicit keep is
  carried out as a COPY.
\<close>

theorem kept_message_stays:
  assumes "evaluate_impl R script ctx = Some (Inr acts)" and "msg_raw ctx = Some raw"
    and "emits R (InputScript ''main'' script) (start_instance R ctx raw) evs err"
    and "\<forall>ev \<in> set evs. ev \<noteq> EvDiscard \<and> (\<forall>r. ev \<noteq> EvReject r)"
    and "(\<exists>ev \<in> set evs. keep_event ev) \<or> (\<forall>ev \<in> set evs. \<not> file_event ev)"
    and "e \<in> set (fst (plan caps smtp ctx acts))"
  shows "\<not> removal e"
proof
  assume "removal e"
  with plan_removal [OF assms(6)] obtain a where a: "a \<in> set acts" and r: "removing a" by blast
  have acts: "acts = finish (acts_of evs)"
    using evaluate_impl_emits [OF assms(2,3)] assms(1) by (auto split: option.splits)
  show False
  proof (cases "discards a")
    case True
    with a acts assms(4) show False by (blast dest: discards_finish discards_acts_of)
  next
    case False
    with r obtain m cr where "a = FileInto m False cr" by (cases a) auto
    with a acts finish_FileInto [of m False cr evs] assms(5) show False by force
  qed
qed

theorem kept_message_stays_witness:
  "fst (plan (fk_caps new_FakeImap) False script_msg [FileInto ''A'' True False]) = [Cmd (Copy 5 ''A'')] \<and>
   \<not> removal (Cmd (Copy 5 ''A''))"
proof
  show p: "fst (plan (fk_caps new_FakeImap) False script_msg [FileInto ''A'' True False]) = [Cmd (Copy 5 ''A'')]"
    by (simp add: plan_def script_msg_def)
  show "\<not> removal (Cmd (Copy 5 ''A''))"
    by (rule kept_message_stays [OF script_rs_evaluates(2) _ script_rs_evaluates(1),
          where caps = "fk_caps new_FakeImap" and smtp = False])
       (simp_all add: p, simp add: script_msg_def)
qed

text \<open>
  C33. A redirect of a message without an envelope sender fails with the production sender if its
  address parser does not take \<open><>\<close> for an address: the executor writes the null reverse-path as
  that text, where the sender expects the empty string (as the rejection notice has it). Nothing
  is sent and the world is unchanged, so the batch stops at this message each time.
\<close>

theorem redirect_without_sender_fails:
  assumes "msg_envelope_from ctx = None" and "msg_raw ctx = Some raw"
    and "ae_smtp self = Some (lettre_sender L t)" and "parse_address L ''<>'' = Inl m"
  shows "execute self ctx [Redirect addresses] w = (Inl (Smtp m), w)"
  using assms by (simp add: execute_def bind_io_def ok_or_def lettre_sender_def lettre_envelope_def)

theorem redirect_without_sender_fails_witness:
  "execute (sample_executor\<lparr>ae_smtp := Some (lettre_sender sample_lettre ())\<rparr>)
     ((sample_msg 5)\<lparr>msg_envelope_from := None\<rparr>) [Redirect [''a@b'']] new_FakeImap =
   (Inl (Smtp ''missing domain or user''), new_FakeImap)"
proof (rule redirect_without_sender_fails)
  show "parse_address (sample_lettre :: (FakeImap, unit, string, unit) Lettre) ''<>'' = Inl ''missing domain or user''"
    by (simp add: sample_lettre_def)
  show "ae_smtp (sample_executor\<lparr>ae_smtp := Some (lettre_sender sample_lettre ())\<rparr>) =
      Some (lettre_sender (sample_lettre :: (FakeImap, unit, string, unit) Lettre) ())"
    by simp
qed (simp_all add: sample_msg_def)

end
